(* ===== verification/Prelude.thy ===== *)
theory Prelude
  imports Main "HOL-Library.Word"
begin

text \<open>
  Shared vocabulary of the development: Rust's machine integers, the outcome of code that may
  panic, fallible iteration, and the generic list, word and map lemmas the components use.
\<close>

section \<open>Machine integers\<close>

type_synonym u8 = "8 word"
type_synonym u16 = "16 word"
type_synonym u32 = "32 word"
type_synonym u64 = "64 word"
type_synonym usize = "64 word"
type_synonym i32 = "32 word"
type_synonym i64 = "64 word"

section \<open>Collections of facts\<close>

named_theorems outcome_simps \<open>equations of the outcome monad and of fallible iteration\<close>
named_theorems view_simps \<open>the class and value of the result of a floating-point operation\<close>
named_theorems frame_simps \<open>fields an operation leaves unchanged\<close>

section \<open>Code that may panic\<close>

text \<open>
  \<open>Panic\<close> is a Rust panic (with \<open>panic = abort\<close> in the release profile it ends the process);
  \<open>Ret\<close> is a normal return. \<open>Result<T, E>\<close> is the sum \<open>'e + 'a\<close> with the error on the left.
\<close>

datatype 'a outcome = Panic | Ret (ret: 'a)

fun obind :: "'a outcome \<Rightarrow> ('a \<Rightarrow> 'b outcome) \<Rightarrow> 'b outcome" where
  "obind Panic f = Panic"
| "obind (Ret a) f = f a"

text \<open>\<open>Option::unwrap\<close>.\<close>

fun unwrap :: "'a option \<Rightarrow> 'a outcome" where
  "unwrap None = Panic"
| "unwrap (Some a) = Ret a"

text \<open>\<open>Result::unwrap\<close> and \<open>Result::expect\<close>.\<close>

fun expect :: "'e + 'a \<Rightarrow> 'a outcome" where
  "expect (Inl e) = Panic"
| "expect (Inr a) = Ret a"

text \<open>The \<open>?\<close> operator on a \<open>Result\<close>.\<close>

fun sbind :: "'e + 'a \<Rightarrow> ('a \<Rightarrow> 'e + 'b) \<Rightarrow> 'e + 'b" where
  "sbind (Inl e) f = Inl e"
| "sbind (Inr a) f = f a"

text \<open>\<open>Iterator::filter\<close> with a predicate that may panic.\<close>

fun ofilter :: "('a \<Rightarrow> bool outcome) \<Rightarrow> 'a list \<Rightarrow> 'a list outcome" where
  "ofilter p [] = Ret []"
| "ofilter p (x # xs) =
     obind (p x) (\<lambda>b. obind (ofilter p xs) (\<lambda>ys. Ret (if b then x # ys else ys)))"

lemma obind_eq_Ret [outcome_simps]: "obind m f = Ret b \<longleftrightarrow> (\<exists>a. m = Ret a \<and> f a = Ret b)"
  by (cases m) auto

lemma obind_eq_Panic: "obind m f = Panic \<longleftrightarrow> m = Panic \<or> (\<exists>a. m = Ret a \<and> f a = Panic)"
  by (cases m) auto

lemma unwrap_eq_Panic: "unwrap o' = Panic \<longleftrightarrow> o' = None"
  by (cases o') auto

lemma expect_eq_Ret [outcome_simps]: "expect r = Ret a \<longleftrightarrow> r = Inr a"
  by (cases r) auto

lemma unwrap_eq_Ret [outcome_simps]: "unwrap o' = Ret a \<longleftrightarrow> o' = Some a"
  by (cases o') auto

lemma sbind_eq_Inr [outcome_simps]: "sbind m f = Inr b \<longleftrightarrow> (\<exists>a. m = Inr a \<and> f a = Inr b)"
  by (cases m) auto

lemma ofilter_Ret:
  assumes "\<And>x. x \<in> set xs \<Longrightarrow> p x = Ret (q x)"
  shows "ofilter p xs = Ret (filter q xs)"
  using assms by (induction xs) auto

lemma ofilter_eq_RetD:
  assumes "ofilter p xs = Ret ys"
  shows "ys = filter (\<lambda>x. p x = Ret True) xs"
  using assms
proof (induction xs arbitrary: ys)
  case (Cons x xs)
  then show ?case by (auto simp: outcome_simps)
qed simp

section \<open>Words\<close>

lemma unat_less_pow: "unat (w :: 'a::len word) < 2 ^ LENGTH('a)"
  by (rule unsigned_less)

lemma unat_of_nat_small: "n < 2 ^ LENGTH('a) \<Longrightarrow> unat (of_nat n :: 'a::len word) = n"
  by (simp add: unsigned_of_nat take_bit_nat_eq_self)

end
