(* ===== verification/Float64.thy ===== *)
theory Float64
  imports Prelude
begin

text \<open>
  IEEE 754 binary64, the type \<open>f64\<close> of Rust and the number type of Redis' Lua interpreter, bit for
  bit: an \<open>f64\<close> is its 64 bits, a finite value is a whole number of units of \<open>2 ^ -1074\<close> (the least
  subnormal), and each arithmetic operation is the exact result rounded once, to nearest, ties to
  even. Only the payload of a NaN result is fixed by choice (the canonical quiet NaN): the
  standard leaves it open and no statement here depends on it.
\<close>

section \<open>Rounding of rationals to 53 significant bits\<close>

fun nbits :: "nat \<Rightarrow> nat" where
  "nbits n = (if n = 0 then 0 else Suc (nbits (n div 2)))"

declare nbits.simps [simp del]

definition rne_div :: "nat \<Rightarrow> nat \<Rightarrow> nat" where
  "rne_div N D = (let q = N div D; r = N mod D
                  in if 2 * r < D \<or> 2 * r = D \<and> even q then q else Suc q)"

text \<open>
  A magnitude is the low 63 bits, read as a number \<open>b\<close>: \<open>b div 2 ^ 52\<close> is the biased exponent and
  \<open>b mod 2 ^ 52\<close> the fraction. \<open>mag b\<close> is its value in units. \<open>round_mag N D\<close> is the magnitude
  nearest to \<open>N / D\<close> units, with an unbounded exponent.
\<close>

definition mag :: "nat \<Rightarrow> nat" where
  "mag b = (let e = b div 2 ^ 52; f = b mod 2 ^ 52
            in if e = 0 then f else (2 ^ 52 + f) * 2 ^ (e - 1))"

definition round_mag :: "nat \<Rightarrow> nat \<Rightarrow> nat" where
  "round_mag N D = (let k = nbits (N div D) - 53 in k * 2 ^ 52 + rne_div N (D * 2 ^ k))"

abbreviation inf_bits :: nat where
  "inf_bits \<equiv> 2047 * 2 ^ 52"

text \<open>The value 1 in units.\<close>

definition one_u :: nat where
  "one_u = 2 ^ 1074"

section \<open>Values\<close>

datatype f64 = F64 (to_bits: u64)

abbreviation from_bits :: "u64 \<Rightarrow> f64" where
  "from_bits \<equiv> F64"

datatype fclass = NaN | Inf bool | Fin bool nat

definition neg_sign :: "f64 \<Rightarrow> bool" where
  "neg_sign x \<longleftrightarrow> 2 ^ 63 \<le> unat (to_bits x)"

definition mag_bits :: "f64 \<Rightarrow> nat" where
  "mag_bits x = unat (to_bits x) mod 2 ^ 63"

definition view :: "f64 \<Rightarrow> fclass" where
  "view x = (let b = mag_bits x; s = neg_sign x
             in if inf_bits < b then NaN else if b = inf_bits then Inf s else Fin s (mag b))"

definition encode :: "bool \<Rightarrow> nat \<Rightarrow> f64" where
  "encode s b = F64 (of_nat ((if s then 2 ^ 63 else 0) + b))"

definition f64_nan :: f64 where
  "f64_nan = F64 0x7FF8000000000000"

definition f64_inf :: "bool \<Rightarrow> f64" where
  "f64_inf s = encode s inf_bits"

definition f64_zero :: "bool \<Rightarrow> f64" where
  "f64_zero s = encode s 0"

text \<open>Rounding \<open>N / D\<close> units with sign \<open>s\<close>; what exceeds the largest finite value is infinite.\<close>

definition f64_round :: "bool \<Rightarrow> nat \<Rightarrow> nat \<Rightarrow> f64" where
  "f64_round s N D = encode s (min (round_mag N D) inf_bits)"

section \<open>Operations\<close>

definition sval :: "bool \<Rightarrow> nat \<Rightarrow> int" where
  "sval s a = (if s then - int a else int a)"

definition f64_neg :: "f64 \<Rightarrow> f64" where
  "f64_neg x = encode (\<not> neg_sign x) (mag_bits x)"

definition f64_add :: "f64 \<Rightarrow> f64 \<Rightarrow> f64" where
  "f64_add x y = (case (view x, view y) of
       (NaN, _) \<Rightarrow> f64_nan
     | (_, NaN) \<Rightarrow> f64_nan
     | (Inf s, Inf t) \<Rightarrow> (if s = t then f64_inf s else f64_nan)
     | (Inf s, Fin _ _) \<Rightarrow> f64_inf s
     | (Fin _ _, Inf t) \<Rightarrow> f64_inf t
     | (Fin s a, Fin t b) \<Rightarrow>
         (let z = sval s a + sval t b
          in if z = 0 then f64_zero (s \<and> t) else f64_round (z < 0) (nat \<bar>z\<bar>) 1))"

definition f64_sub :: "f64 \<Rightarrow> f64 \<Rightarrow> f64" where
  "f64_sub x y = f64_add x (f64_neg y)"

definition f64_mul :: "f64 \<Rightarrow> f64 \<Rightarrow> f64" where
  "f64_mul x y = (case (view x, view y) of
       (NaN, _) \<Rightarrow> f64_nan
     | (_, NaN) \<Rightarrow> f64_nan
     | (Inf s, Inf t) \<Rightarrow> f64_inf (s \<noteq> t)
     | (Inf s, Fin t b) \<Rightarrow> (if b = 0 then f64_nan else f64_inf (s \<noteq> t))
     | (Fin s a, Inf t) \<Rightarrow> (if a = 0 then f64_nan else f64_inf (s \<noteq> t))
     | (Fin s a, Fin t b) \<Rightarrow> f64_round (s \<noteq> t) (a * b) (one_u))"

definition f64_div :: "f64 \<Rightarrow> f64 \<Rightarrow> f64" where
  "f64_div x y = (case (view x, view y) of
       (NaN, _) \<Rightarrow> f64_nan
     | (_, NaN) \<Rightarrow> f64_nan
     | (Inf s, Inf t) \<Rightarrow> f64_nan
     | (Inf s, Fin t b) \<Rightarrow> f64_inf (s \<noteq> t)
     | (Fin s a, Inf t) \<Rightarrow> f64_zero (s \<noteq> t)
     | (Fin s a, Fin t b) \<Rightarrow>
         (if b = 0 then (if a = 0 then f64_nan else f64_inf (s \<noteq> t))
          else f64_round (s \<noteq> t) (a * one_u) b))"

text \<open>
  The order. \<open>fval\<close> is the signed value in units; \<open>mag inf_bits\<close> continues the scale, so infinities
  compare as they should.
\<close>

definition is_nan :: "f64 \<Rightarrow> bool" where
  "is_nan x \<longleftrightarrow> inf_bits < mag_bits x"

definition fval :: "f64 \<Rightarrow> int" where
  "fval x = sval (neg_sign x) (mag (mag_bits x))"

datatype ordering = Less | Equal | Greater

definition f64_gt :: "f64 \<Rightarrow> f64 \<Rightarrow> bool" where
  "f64_gt x y \<longleftrightarrow> \<not> is_nan x \<and> \<not> is_nan y \<and> fval y < fval x"

definition partial_cmp :: "f64 \<Rightarrow> f64 \<Rightarrow> ordering option" where
  "partial_cmp x y =
     (if is_nan x \<or> is_nan y then None
      else Some (if fval x < fval y then Less else if fval x = fval y then Equal else Greater))"

text \<open>Conversions: \<open>u64 as f64\<close>, and Lua's \<open>math.floor\<close> and \<open>math.ceil\<close>.\<close>

definition f64_of_nat :: "nat \<Rightarrow> f64" where
  "f64_of_nat n = f64_round False (n * one_u) 1"

definition f64_of_u64 :: "u64 \<Rightarrow> f64" where
  "f64_of_u64 w = f64_of_nat (unat w)"

definition f64_floor :: "f64 \<Rightarrow> f64" where
  "f64_floor x = (case view x of
       NaN \<Rightarrow> f64_nan
     | Inf s \<Rightarrow> f64_inf s
     | Fin s a \<Rightarrow> f64_round s (nat \<bar>sval s a div int one_u\<bar> * one_u) 1)"

definition f64_ceil :: "f64 \<Rightarrow> f64" where
  "f64_ceil x = (case view x of
       NaN \<Rightarrow> f64_nan
     | Inf s \<Rightarrow> f64_inf s
     | Fin s a \<Rightarrow> f64_round s (nat \<bar>- (- sval s a div int one_u)\<bar> * one_u) 1)"

section \<open>The rounding function\<close>

lemma nbits_0 [simp]: "nbits 0 = 0"
  by (simp add: nbits.simps)

lemma nbits_pos: "0 < n \<Longrightarrow> nbits n = Suc (nbits (n div 2))"
  by (simp add: nbits.simps)

lemma nbits_upper: "n < 2 ^ nbits n"
proof (induction n rule: nbits.induct)
  case (1 n)
  show ?case
  proof (cases "n = 0")
    case False
    with "1" have "n div 2 < 2 ^ nbits (n div 2)" by simp
    with False show ?thesis by (simp add: nbits_pos) 
  qed simp
qed

lemma nbits_lower: "0 < n \<Longrightarrow> 2 ^ (nbits n - 1) \<le> n"
proof (induction n rule: nbits.induct)
  case (1 n)
  show ?case
  proof (cases "n div 2 = 0")
    case True
    with "1.prems" show ?thesis by (simp add: nbits_pos)
  next
    case False
    with "1" have IH: "2 ^ (nbits (n div 2) - 1) \<le> n div 2" by simp
    from False have "nbits (n div 2) = Suc (nbits (n div 2) - 1)" by (simp add: nbits_pos)
    then have "2 ^ nbits (n div 2) = (2::nat) * 2 ^ (nbits (n div 2) - 1)" by (metis power_Suc)
    with IH "1.prems" show ?thesis by (simp add: nbits_pos)
  qed
qed

lemma nbits_le_iff: "nbits n \<le> k \<longleftrightarrow> n < 2 ^ k"
proof
  assume "nbits n \<le> k"
  then have "(2::nat) ^ nbits n \<le> 2 ^ k" by simp
  with nbits_upper [of n] show "n < 2 ^ k" by linarith
next
  assume n: "n < 2 ^ k"
  show "nbits n \<le> k"
  proof (rule ccontr)
    assume k: "\<not> nbits n \<le> k"
    then have "n \<noteq> 0" by (intro notI) simp
    with k have "(2::nat) ^ k \<le> 2 ^ (nbits n - 1)" by (intro power_increasing) auto
    also have "\<dots> \<le> n" using \<open>n \<noteq> 0\<close> by (intro nbits_lower) simp
    finally show False using n by simp
  qed
qed

lemma nbits_mono: "m \<le> n \<Longrightarrow> nbits m \<le> nbits n"
  by (meson le_less_trans nbits_le_iff nbits_upper)

lemma nbits_mult_power2:
  assumes "0 < n" shows "nbits (n * 2 ^ k) = nbits n + k"
proof (induction k)
  case (Suc k)
  have "nbits (n * 2 ^ Suc k) = Suc (nbits (n * 2 ^ Suc k div 2))"
    using assms by (intro nbits_pos) simp
  also have "n * 2 ^ Suc k div 2 = n * 2 ^ k" by simp
  finally show ?case using Suc by simp
qed simp

lemma rne_div_mult [simp]: "0 < D \<Longrightarrow> rne_div (k * D) D = k"
  by (simp add: rne_div_def)

lemma rne_div_scale: "0 < c \<Longrightarrow> 0 < D \<Longrightarrow> rne_div (N * c) (D * c) = rne_div N D"
  by (simp add: rne_div_def Let_def mult_mod_left [symmetric] mult.assoc [symmetric])

lemma rne_div_bounds: "N div D \<le> rne_div N D \<and> rne_div N D \<le> Suc (N div D)"
  by (simp add: rne_div_def Let_def)

lemma rne_div_mono_num:
  assumes "N \<le> N'" shows "rne_div N D \<le> rne_div N' D"
proof (cases "N div D = N' div D")
  case True
  have "N = D * (N div D) + N mod D" "N' = D * (N' div D) + N' mod D" by simp_all
  with True assms have "N mod D \<le> N' mod D" by (metis add_le_cancel_left)
  with True show ?thesis by (auto simp: rne_div_def Let_def)
next
  case False
  with div_le_mono [OF assms, of D] have "Suc (N div D) \<le> N' div D" by linarith
  with rne_div_bounds [of N D] rne_div_bounds [of N' D] show ?thesis by linarith
qed

lemma rne_div_mono:
  assumes "N * D' \<le> N' * D" "0 < D" "0 < D'"
  shows "rne_div N D \<le> rne_div N' D'"
proof -
  have "rne_div N D = rne_div (N * D') (D * D')"
    using assms by (simp add: rne_div_scale)
  also have "\<dots> \<le> rne_div (N' * D) (D * D')"
    using assms by (simp add: rne_div_mono_num)
  also have "\<dots> = rne_div N' D'"
    using assms rne_div_scale [of D D' N'] by (simp add: mult.commute)
  finally show ?thesis .
qed

lemma mag_small: "M < 2 ^ 53 \<Longrightarrow> mag M = M"
proof -
  assume M: "M < 2 ^ 53"
  show ?thesis
  proof (cases "M < 2 ^ 52")
    case False
    with M have "M div 2 ^ 52 = 1" by (intro div_nat_eqI) auto
    moreover from this have "M = 2 ^ 52 + M mod 2 ^ 52" by (metis div_mult_mod_eq mult_1)
    ultimately show ?thesis by (simp add: mag_def Let_def)
  qed (simp add: mag_def)
qed

lemma mag_normal:
  assumes "2 ^ 52 \<le> M" "M \<le> 2 ^ 53"
  shows "mag (k * 2 ^ 52 + M) = M * 2 ^ k"
proof (cases "M = 2 ^ 53")
  case True
  then have "k * 2 ^ 52 + M = (k + 2) * 2 ^ 52" by simp
  then have "(k * 2 ^ 52 + M) div 2 ^ 52 = k + 2" "(k * 2 ^ 52 + M) mod 2 ^ 52 = 0"
    by (simp_all only: nonzero_mult_div_cancel_right mod_mult_self2_is_0) simp_all
  with True show ?thesis by (simp add: mag_def)
next
  case False
  define f where "f = M - 2 ^ 52"
  have f: "f < 2 ^ 52" "M = 2 ^ 52 + f" using False assms by (simp_all add: f_def)
  then have "k * 2 ^ 52 + M = (k + 1) * 2 ^ 52 + f" by simp
  with f(1) have "(k * 2 ^ 52 + M) div 2 ^ 52 = k + 1" "(k * 2 ^ 52 + M) mod 2 ^ 52 = f"
    by simp_all
  with f show ?thesis by (simp add: mag_def)
qed

lemma mag_cases:
  obtains (small) "b < 2 ^ 52" "mag b = b"
  | (normal) k M where "b = k * 2 ^ 52 + M" "2 ^ 52 \<le> M" "M < 2 ^ 53" "mag b = M * 2 ^ k"
proof (cases "b < 2 ^ 52")
  case True
  then show ?thesis using small by (simp add: mag_small)
next
  case False
  define M where "M = 2 ^ 52 + b mod 2 ^ 52"
  have "1 \<le> b div 2 ^ 52" using False by (simp add: Suc_le_eq div_greater_zero_iff)
  then obtain k where "b div 2 ^ 52 = Suc k" by (metis Suc_le_D One_nat_def)
  then have "b = (b div 2 ^ 52 - 1) * 2 ^ 52 + M"
    using div_mult_mod_eq [of b "2 ^ 52"] by (simp add: M_def)
  moreover have "2 ^ 52 \<le> M" "M < 2 ^ 53" by (simp_all add: M_def)
  ultimately show ?thesis using normal mag_normal [of M] by (metis less_imp_le)
qed

lemma round_mag_scale: "0 < c \<Longrightarrow> 0 < D \<Longrightarrow> round_mag (N * c) (D * c) = round_mag N D"
  using rne_div_scale [of c "D * 2 ^ _" N] by (simp add: round_mag_def Let_def ac_simps)

lemma round_mag_mag: "round_mag (mag b) 1 = b"
proof (cases b rule: mag_cases)
  case small
  then have "nbits (mag b) \<le> 52" by (simp only: nbits_le_iff)
  then show ?thesis using small rne_div_mult [of 1 b] by (simp add: round_mag_def)
next
  case (normal k M)
  have "nbits M \<le> 53" using normal by (simp add: nbits_le_iff)
  moreover have "\<not> nbits M \<le> 52" using normal by (simp add: nbits_le_iff)
  ultimately have "nbits (M * 2 ^ k) = 53 + k" using normal by (simp add: nbits_mult_power2)
  then show ?thesis using normal by (simp add: round_mag_def)
qed

lemma round_mag_M:
  assumes "0 < D" and k: "k = nbits (N div D) - 53"
  shows "rne_div N (D * 2 ^ k) \<le> 2 ^ 53" and "0 < k \<Longrightarrow> 2 ^ 52 \<le> rne_div N (D * 2 ^ k)"
proof -
  have "nbits (N div D) \<le> k + 53" using k by simp
  then have "N div D < 2 ^ (k + 53)" by (simp only: nbits_le_iff)
  then have "N < 2 ^ 53 * (D * 2 ^ k)"
    using assms by (simp add: div_less_iff_less_mult power_add ac_simps)
  then have "rne_div N (D * 2 ^ k) \<le> rne_div (2 ^ 53 * (D * 2 ^ k)) (D * 2 ^ k)"
    by (intro rne_div_mono_num) simp
  then show "rne_div N (D * 2 ^ k) \<le> 2 ^ 53" using assms by simp
  assume "0 < k"
  with k have "\<not> nbits (N div D) \<le> k + 52" by simp
  then have "2 ^ (k + 52) \<le> N div D" by (simp only: nbits_le_iff linorder_not_less)
  then have "2 ^ 52 * (D * 2 ^ k) \<le> N"
    using assms by (simp add: less_eq_div_iff_mult_less_eq power_add ac_simps)
  then have "rne_div (2 ^ 52 * (D * 2 ^ k)) (D * 2 ^ k) \<le> rne_div N (D * 2 ^ k)"
    by (intro rne_div_mono_num) simp
  then show "2 ^ 52 \<le> rne_div N (D * 2 ^ k)" using assms by simp
qed

lemma round_mag_mono:
  assumes le: "N * D' \<le> N' * D" and "0 < D" "0 < D'"
  shows "round_mag N D \<le> round_mag N' D'"
proof -
  define k k' where "k = nbits (N div D) - 53" and "k' = nbits (N' div D') - 53"
  have "N div D = N * D' div (D * D')" using assms by simp
  also have "\<dots> \<le> N' * D div (D * D')" using le by (rule div_le_mono)
  also have "\<dots> = N' div D'" using assms by simp
  finally have "nbits (N div D) \<le> nbits (N' div D')" by (rule nbits_mono)
  then have kk: "k \<le> k'" by (simp add: k_def k'_def)
  have r: "round_mag N D = k * 2 ^ 52 + rne_div N (D * 2 ^ k)"
    "round_mag N' D' = k' * 2 ^ 52 + rne_div N' (D' * 2 ^ k')"
    by (simp_all add: round_mag_def Let_def k_def k'_def)
  show ?thesis
  proof (cases "k = k'")
    case True
    have "rne_div N (D * 2 ^ k) \<le> rne_div N' (D' * 2 ^ k)"
      using assms by (intro rne_div_mono) (simp_all add: mult.assoc [symmetric])
    with True show ?thesis by (simp add: r)
  next
    case False
    with kk have "(k + 1) * 2 ^ 52 \<le> k' * 2 ^ 52" and "0 < k'" by simp_all
    moreover have "rne_div N (D * 2 ^ k) \<le> 2 ^ 53" by (rule round_mag_M) (simp_all add: assms k_def)
    moreover have "2 ^ 52 \<le> rne_div N' (D' * 2 ^ k')"
      by (rule round_mag_M(2) [OF \<open>0 < D'\<close> k'_def \<open>0 < k'\<close>])
    ultimately show ?thesis by (simp add: r)
  qed
qed

lemma mag_le_iff [simp]: "mag a \<le> mag b \<longleftrightarrow> a \<le> b"
proof
  assume "mag a \<le> mag b"
  then have "round_mag (mag a) 1 \<le> round_mag (mag b) 1" by (intro round_mag_mono) simp_all
  then show "a \<le> b" by (simp only: round_mag_mag)
next
  assume ab: "a \<le> b"
  show "mag a \<le> mag b"
  proof (rule ccontr)
    assume "\<not> mag a \<le> mag b"
    then have "round_mag (mag b) 1 \<le> round_mag (mag a) 1" by (intro round_mag_mono) simp_all
    then have "b \<le> a" by (simp only: round_mag_mag)
    with ab have "a = b" by simp
    with \<open>\<not> mag a \<le> mag b\<close> show False by simp
  qed
qed

lemma mag_eq_iff [simp]: "mag a = mag b \<longleftrightarrow> a = b"
  by (metis mag_le_iff order_antisym_conv order_refl)

lemma mag_less_iff [simp]: "mag a < mag b \<longleftrightarrow> a < b"
  by (simp add: linorder_not_le [symmetric])

lemma mag_0 [simp]: "mag 0 = 0"
  by (simp add: mag_def)

lemma mag_eq_0_iff [simp]: "mag b = 0 \<longleftrightarrow> b = 0"
  using mag_eq_iff [of b 0] by (simp del: mag_eq_iff)

text \<open>A representable bound on the exact value bounds the rounded value.\<close>

lemma round_mag_le: "0 < D \<Longrightarrow> N \<le> mag b * D \<Longrightarrow> round_mag N D \<le> b"
  using round_mag_mono [of N 1 "mag b" D] by (simp add: round_mag_mag [simplified])

lemma round_mag_ge: "0 < D \<Longrightarrow> mag b * D \<le> N \<Longrightarrow> b \<le> round_mag N D"
  using round_mag_mono [of "mag b" D N 1] by (simp add: round_mag_mag [simplified])

lemma mag_round_exact:
  assumes "2 ^ (nbits N - 53) dvd N"
  shows "mag (round_mag N 1) = N"
proof -
  define k where "k = nbits N - 53"
  obtain M where M: "N = M * 2 ^ k" using assms by (metis k_def dvd_def mult.commute)
  then have "rne_div N (1 * 2 ^ k) = M" by simp
  then have r: "round_mag N 1 = k * 2 ^ 52 + M" by (simp add: round_mag_def Let_def k_def)
  show ?thesis
  proof (cases "k = 0")
    case True
    then have "nbits N \<le> 53" by (simp add: k_def)
    then have "M < 2 ^ 53" using M True by (simp add: nbits_le_iff)
    then show ?thesis using r M True by (simp add: mag_small)
  next
    case False
    have "rne_div N (1 * 2 ^ k) = M" by (simp add: M)
    with round_mag_M [of 1 k N] False have "2 ^ 52 \<le> M" "M \<le> 2 ^ 53" by (simp_all add: k_def)
    then have "mag (k * 2 ^ 52 + M) = M * 2 ^ k" by (rule mag_normal)
    with r M show ?thesis by simp
  qed
qed

section \<open>Classes and values of results\<close>

lemma unat_encode:
  assumes "b < 2 ^ 63"
  shows "unat (to_bits (encode s b)) = (if s then 2 ^ 63 else 0) + b"
proof -
  have "(if s then 2 ^ 63 else 0) + b < 2 ^ 64" using assms by (cases s) simp_all
  then show ?thesis unfolding encode_def f64.sel by (intro unat_of_nat_small) simp
qed

lemma neg_sign_encode [simp]: "b < 2 ^ 63 \<Longrightarrow> neg_sign (encode s b) = s"
  by (simp add: neg_sign_def unat_encode)

lemma mag_bits_encode [simp]: "b < 2 ^ 63 \<Longrightarrow> mag_bits (encode s b) = b"
  by (simp add: mag_bits_def unat_encode)

lemma encode_split: "encode (neg_sign x) (mag_bits x) = x"
proof (cases x)
  case (F64 w)
  have "unat w < 2 ^ 64" using unat_less_pow [of w] by simp
  then have "(if 2 ^ 63 \<le> unat w then 2 ^ 63 else 0) + unat w mod 2 ^ 63 = unat w"
    by (cases "2 ^ 63 \<le> unat w") (simp_all add: le_mod_geq)
  then show ?thesis by (simp add: F64 encode_def neg_sign_def mag_bits_def)
qed

lemma view_encode:
  "b \<le> inf_bits \<Longrightarrow> view (encode s b) = (if b = inf_bits then Inf s else Fin s (mag b))"
  by (simp add: view_def Let_def)

lemma view_nan [view_simps]: "view f64_nan = NaN"
  by (simp add: view_def f64_nan_def mag_bits_def)

lemma view_inf [view_simps]: "view (f64_inf s) = Inf s"
  by (simp only: f64_inf_def view_encode) simp

lemma view_zero [view_simps]: "view (f64_zero s) = Fin s 0"
  by (simp add: f64_zero_def view_encode)

lemma view_round:
  "view (f64_round s N D) =
     (if inf_bits \<le> round_mag N D then Inf s else Fin s (mag (round_mag N D)))"
  by (simp add: f64_round_def view_encode min_def)

lemma view_FinE:
  assumes "view x = Fin s a"
  obtains b where "b < inf_bits" "a = mag b" "x = encode s b"
proof -
  from assms have "mag_bits x < inf_bits" "a = mag (mag_bits x)" "s = neg_sign x"
    by (auto simp: view_def Let_def split: if_splits)
  then show ?thesis using encode_split [of x] by (intro that [of "mag_bits x"]) simp_all
qed

lemma view_Fin_inject: "view x = Fin s a \<Longrightarrow> view y = Fin s a \<Longrightarrow> x = y"
  by (elim view_FinE) simp

lemma view_nan_iff: "view x = NaN \<longleftrightarrow> is_nan x"
  by (auto simp: view_def is_nan_def Let_def)

lemma fval_Fin: "view x = Fin s a \<Longrightarrow> fval x = sval s a \<and> \<not> is_nan x"
  by (elim view_FinE) (simp add: fval_def is_nan_def)

lemma fval_nn: "view x = Fin False a \<Longrightarrow> fval x = int a"
  using fval_Fin [of x False a] by (simp add: sval_def)

lemma fval_Inf: "view x = Inf s \<Longrightarrow> fval x = sval s (mag inf_bits) \<and> \<not> is_nan x"
  by (auto simp: view_def fval_def is_nan_def Let_def split: if_splits)

lemma f64_round_eq: "round_mag N D = round_mag N' D' \<Longrightarrow> f64_round s N D = f64_round s N' D'"
  by (simp add: f64_round_def)

lemma round_mag_0 [simp]: "round_mag 0 D = 0"
  by (cases "D = 0") (simp_all add: round_mag_def rne_div_def)

text \<open>Operations on values that are not negative.\<close>

lemma f64_add_nn:
  assumes "view x = Fin False a" "view y = Fin False b"
  shows "f64_add x y = f64_round False (a + b) 1"
proof (cases "a + b = 0")
  case False
  then have "int a + int b \<noteq> 0" by linarith
  with assms show ?thesis by (simp add: f64_add_def sval_def Let_def nat_add_distrib)
qed (use assms in \<open>simp add: f64_add_def sval_def f64_round_def f64_zero_def\<close>)

lemma f64_mul_nn:
  assumes "view x = Fin False a" "view y = Fin False b"
  shows "f64_mul x y = f64_round False (a * b) one_u"
  using assms by (simp add: f64_mul_def)

lemma f64_div_nn:
  assumes "view x = Fin False a" "view y = Fin False b" "0 < b"
  shows "f64_div x y = f64_round False (a * one_u) b"
  using assms by (simp add: f64_div_def)

lemma view_neg: "view x = Fin s a \<Longrightarrow> view (f64_neg x) = Fin (\<not> s) a"
  by (elim view_FinE) (simp add: f64_neg_def view_encode)

lemma f64_sub_nn:
  assumes "view x = Fin False a" "view y = Fin False b" "b \<le> a"
  shows "f64_sub x y = f64_round False (a - b) 1"
proof -
  have "view (f64_neg y) = Fin True b" using view_neg [OF assms(2)] by simp
  then show ?thesis
    using assms by (auto simp: f64_sub_def f64_add_def sval_def f64_round_def f64_zero_def Let_def nat_diff_distrib)
qed

lemma f64_gt_nn:
  "view x = Fin False a \<Longrightarrow> view y = Fin False b \<Longrightarrow> f64_gt x y \<longleftrightarrow> b < a"
  using fval_Fin [of x False a] fval_Fin [of y False b] by (simp add: f64_gt_def sval_def)

text \<open>A result that is exactly representable is not changed by rounding.\<close>

lemma f64_round_exact:
  assumes "view x = Fin s a" "0 < D"
  shows "f64_round s (a * D) D = x"
proof -
  from assms(1) obtain b where b: "b < inf_bits" "a = mag b" "x = encode s b"
    by (rule view_FinE)
  have "round_mag (a * D) D = round_mag a 1"
    using round_mag_scale [of D 1 a] assms(2) by simp
  also have "\<dots> = b" by (simp only: b round_mag_mag)
  finally show ?thesis using b by (simp add: f64_round_def)
qed

section \<open>Whole numbers\<close>

lemma one_u_pos [simp]: "0 < one_u"
  unfolding one_u_def by (rule zero_less_power) simp

lemma one_u_neq_0 [simp]: "one_u \<noteq> 0"
  using one_u_pos by (rule gr_implies_not0)

lemma mag_inf_bits: "mag inf_bits = 2 ^ 1024 * one_u"
proof -
  have "mag (2046 * 2 ^ 52 + 2 ^ 52) = 2 ^ 52 * 2 ^ 2046" by (rule mag_normal) simp_all
  also have "2046 * 2 ^ 52 + 2 ^ 52 = inf_bits" by simp
  also have "(2::nat) ^ 52 * 2 ^ 2046 = 2 ^ 1024 * one_u"
    unfolding one_u_def by (simp only: power_add [symmetric]) simp
  finally show ?thesis .
qed

lemma mag_nat:
  assumes "n \<le> 2 ^ 53"
  shows "mag (round_mag (n * one_u) 1) = n * one_u"
proof (rule mag_round_exact)
  show "2 ^ (nbits (n * one_u) - 53) dvd n * one_u"
  proof (cases "n = 2 ^ 53")
    case True
    then have "n * one_u = 2 ^ (53 + 1074)" unfolding one_u_def by (simp only: power_add)
    moreover have "nbits (1 * 2 ^ (53 + 1074)) = nbits 1 + (53 + 1074)"
      by (rule nbits_mult_power2) simp
    moreover have "nbits 1 = 1" by (simp add: nbits_pos)
    ultimately show ?thesis by (simp only: mult_1) (intro le_imp_power_dvd, simp)
  next
    case False
    show ?thesis
    proof (cases "n = 0")
      case False
      with assms \<open>n \<noteq> 2 ^ 53\<close> have "nbits n \<le> 53" by (simp add: nbits_le_iff)
      moreover have "nbits (n * one_u) = nbits n + 1074"
        unfolding one_u_def using False by (intro nbits_mult_power2) simp
      ultimately have "2 ^ (nbits (n * one_u) - 53) dvd one_u"
        unfolding one_u_def by (intro le_imp_power_dvd) simp
      then show ?thesis by (rule dvd_mult)
    qed simp
  qed
qed

lemma view_of_nat [view_simps]:
  assumes "n \<le> 2 ^ 53"
  shows "view (f64_of_nat n) = Fin False (n * one_u)"
proof -
  have "n * one_u < 2 ^ 1024 * one_u"
  proof (rule mult_less_mono1)
    have "(2::nat) ^ 53 < 2 ^ 1024" by (rule power_strict_increasing) simp_all
    with assms show "n < 2 ^ 1024" by (rule le_less_trans)
  qed simp
  then have "round_mag (n * one_u) 1 < inf_bits"
    using mag_nat [OF assms] mag_inf_bits mag_less_iff by metis
  with mag_nat [OF assms] show ?thesis by (simp add: f64_of_nat_def view_round)
qed

lemma fval_of_nat: "n \<le> 2 ^ 53 \<Longrightarrow> fval (f64_of_nat n) = int (n * one_u) \<and> \<not> is_nan (f64_of_nat n)"
  using fval_nn [OF view_of_nat, of n] fval_Fin [OF view_of_nat, of n] by simp

lemma f64_add_of_nat:
  "m \<le> 2 ^ 53 \<Longrightarrow> n \<le> 2 ^ 53 \<Longrightarrow> f64_add (f64_of_nat m) (f64_of_nat n) = f64_of_nat (m + n)"
  by (subst f64_add_nn [OF view_of_nat view_of_nat]) (simp_all add: f64_of_nat_def add_mult_distrib)

lemma f64_sub_of_nat:
  "m \<le> 2 ^ 53 \<Longrightarrow> n \<le> m \<Longrightarrow> f64_sub (f64_of_nat m) (f64_of_nat n) = f64_of_nat (m - n)"
  by (subst f64_sub_nn [OF view_of_nat view_of_nat]) (simp_all add: f64_of_nat_def diff_mult_distrib)

lemma f64_mul_of_nat:
  assumes "m \<le> 2 ^ 53" "n \<le> 2 ^ 53"
  shows "f64_mul (f64_of_nat m) (f64_of_nat n) = f64_of_nat (m * n)"
proof -
  have "f64_mul (f64_of_nat m) (f64_of_nat n) = f64_round False (m * one_u * (n * one_u)) one_u"
    using assms by (intro f64_mul_nn view_of_nat)
  also have "\<dots> = f64_round False ((m * n * one_u) * one_u) (1 * one_u)"
    by (simp add: ac_simps)
  also have "\<dots> = f64_of_nat (m * n)"
    unfolding f64_of_nat_def by (intro f64_round_eq round_mag_scale) simp_all
  finally show ?thesis .
qed

lemma f64_div_of_nat:
  assumes "m * n \<le> 2 ^ 53" "n \<le> 2 ^ 53" "0 < n"
  shows "f64_div (f64_of_nat (m * n)) (f64_of_nat n) = f64_of_nat m"
proof -
  have "f64_div (f64_of_nat (m * n)) (f64_of_nat n) = f64_round False (m * n * one_u * one_u) (n * one_u)"
    using assms by (intro f64_div_nn view_of_nat) simp_all
  also have "\<dots> = f64_round False ((m * one_u) * (n * one_u)) (1 * (n * one_u))"
    by (simp add: ac_simps)
  also have "\<dots> = f64_of_nat m"
    unfolding f64_of_nat_def using assms by (intro f64_round_eq round_mag_scale) simp_all
  finally show ?thesis .
qed

lemma f64_gt_of_nat:
  "m \<le> 2 ^ 53 \<Longrightarrow> n \<le> 2 ^ 53 \<Longrightarrow> f64_gt (f64_of_nat m) (f64_of_nat n) \<longleftrightarrow> n < m"
  by (simp add: f64_gt_nn [OF view_of_nat view_of_nat])

section \<open>Literals and dyadic values\<close>

text \<open>A positive normal literal, from its bits.\<close>

lemma view_lit:
  assumes "unat w = k * 2 ^ 52 + M" "2 ^ 52 \<le> M" "M < 2 ^ 53" "k < 2046"
  shows "view (F64 w) = Fin False (M * 2 ^ k)"
proof -
  have "k * 2 ^ 52 \<le> 2045 * 2 ^ 52" using assms by simp
  with assms have "unat w < inf_bits" by simp
  then have "mag_bits (F64 w) = unat w" "\<not> neg_sign (F64 w)"
    by (simp_all add: mag_bits_def neg_sign_def)
  with \<open>unat w < inf_bits\<close> show ?thesis
    using mag_normal [of M k] assms by (simp add: view_def)
qed

text \<open>Rounding of \<open>m * 2 ^ j\<close> units, from the significand \<open>m\<close> alone.\<close>

lemma round_mag_dyadic:
  assumes "nbits m = 53 + d" "m * 2 ^ j * D = N"  "0 < D"
  shows "round_mag N D = (j + d) * 2 ^ 52 + rne_div m (2 ^ d)"
proof -
  have m: "0 < m" using assms(1) by (cases m) auto
  have "round_mag N D = round_mag (m * 2 ^ j) 1"
    using round_mag_scale [of D 1 "m * 2 ^ j"] assms by simp
  moreover have "nbits (m * 2 ^ j) - 53 = j + d"
    using assms m by (simp add: nbits_mult_power2)
  moreover have "rne_div (m * 2 ^ j) (1 * 2 ^ (j + d)) = rne_div m (2 ^ d)"
    using rne_div_scale [of "2 ^ j" "2 ^ d" m] by (simp add: power_add mult.commute)
  ultimately show ?thesis by (simp add: round_mag_def Let_def)
qed

lemma nbits_eqI: "2 ^ k \<le> n \<Longrightarrow> n < 2 ^ Suc k \<Longrightarrow> nbits n = Suc k"
  using nbits_le_iff [of n "Suc k"] nbits_le_iff [of n k] by linarith

definition f64_half :: f64 where
  "f64_half = F64 0x3FE0000000000000"

definition f64_one :: f64 where
  "f64_one = f64_of_nat 1"

definition half_u :: nat where
  "half_u = 2 ^ 1073"

lemma one_u_half: "one_u = 2 * half_u"
  unfolding one_u_def half_u_def by (simp only: power_Suc [symmetric]) simp

lemma half_u_pos [simp]: "0 < half_u"
  unfolding half_u_def by (rule zero_less_power) simp

lemma view_one: "view f64_one = Fin False one_u"
  using view_of_nat [of 1] by (simp add: f64_one_def)

lemma view_half: "view f64_half = Fin False half_u"
proof -
  have "view f64_half = Fin False (2 ^ 52 * 2 ^ 1021)"
    unfolding f64_half_def by (rule view_lit) simp_all
  then show ?thesis unfolding half_u_def by (simp only: power_add [symmetric]) simp
qed

lemma one_minus_half: "f64_sub f64_one f64_half = f64_half"
proof -
  have "f64_sub f64_one f64_half = f64_round False (one_u - half_u) 1"
    by (rule f64_sub_nn [OF view_one view_half]) (simp add: one_u_half)
  also have "\<dots> = f64_round False (half_u * 1) 1" by (simp add: one_u_half)
  also have "\<dots> = f64_half" by (rule f64_round_exact [OF view_half]) simp
  finally show ?thesis .
qed

text \<open>Halving is exact from \<open>2 ^ 53\<close> units on.\<close>

lemma mul_half_exact:
  assumes "view x = Fin False u" "2 ^ 53 \<le> u"
  shows "view (f64_mul x f64_half) = Fin False (u div 2)" and "even u"
proof -
  obtain b where b: "b < inf_bits" "u = mag b" using assms(1) by (rule view_FinE)
  obtain k M where kM: "b = Suc k * 2 ^ 52 + M" "2 ^ 52 \<le> M" "M < 2 ^ 53" "u = M * 2 ^ Suc k"
  proof (cases b rule: mag_cases)
    case small
    then show ?thesis using b assms by simp
  next
    case (normal k M)
    then show ?thesis using that b assms by (cases k) auto
  qed
  then show "even u" by simp
  have u2: "u div 2 = mag (k * 2 ^ 52 + M)" using kM mag_normal [of M k] by simp
  define y where "y = encode False (k * 2 ^ 52 + M)"
  have vy: "view y = Fin False (u div 2)" unfolding y_def u2 using kM b(1) by (simp add: view_encode)
  have "u * half_u = u div 2 * one_u" using \<open>even u\<close> by (auto simp: one_u_half)
  then have "f64_mul x f64_half = f64_round False (u div 2 * one_u) one_u"
    using f64_mul_nn [OF assms(1) view_half] by simp
  also have "\<dots> = y" by (rule f64_round_exact [OF vy]) simp
  finally show "view (f64_mul x f64_half) = Fin False (u div 2)" using vy by simp
qed

text \<open>Rounding never leaves an interval with representable ends.\<close>

lemma view_round_between:
  assumes "view x = Fin False a" "view y = Fin False c" "0 < D"
    and "a * D \<le> N" "N \<le> c * D"
  shows "\<exists>v. view (f64_round False N D) = Fin False v \<and> a \<le> v \<and> v \<le> c"
proof -
  obtain p where p: "a = mag p" using assms(1) by (rule view_FinE)
  obtain q where q: "q < inf_bits" "c = mag q" using assms(2) by (rule view_FinE)
  have "round_mag N D \<le> q" using assms q by (intro round_mag_le) simp_all
  moreover have "p \<le> round_mag N D" using assms p by (intro round_mag_ge) simp_all
  ultimately show ?thesis using p q by (simp add: view_round)
qed

text \<open>Rounding is monotone.\<close>

lemma fval_round: "fval (f64_round False N D) = int (mag (min (round_mag N D) inf_bits))"
  "\<not> is_nan (f64_round False N D)"
  by (simp_all add: fval_def f64_round_def sval_def is_nan_def)

lemma fval_round_mono:
  assumes "N * D' \<le> N' * D" "0 < D" "0 < D'"
  shows "fval (f64_round False N D) \<le> fval (f64_round False N' D')"
  using round_mag_mono [OF assms] by (simp add: fval_round min_le_iff_disj)

lemma view_round_dyadic:
  assumes "nbits m = 53 + d" "N = m * 2 ^ j * D" "0 < D"
    and "rne_div m (2 ^ d) = M" "2 ^ 52 \<le> M" "M < 2 ^ 53" "j + d < 2046"
  shows "view (f64_round False N D) = Fin False (M * 2 ^ (j + d))"
proof -
  have r: "round_mag N D = (j + d) * 2 ^ 52 + M"
    using round_mag_dyadic [OF assms(1) assms(2) [symmetric] assms(3)] assms(4) by simp
  have "(j + d) * 2 ^ 52 \<le> 2045 * 2 ^ 52" using assms(7) by simp
  with assms(6) have "round_mag N D < inf_bits" unfolding r by simp
  moreover have "mag (round_mag N D) = M * 2 ^ (j + d)"
    unfolding r using assms by (intro mag_normal) simp_all
  ultimately show ?thesis by (simp add: view_round)
qed

lemma one_u_big: "2 ^ 53 \<le> one_u"
  unfolding one_u_def by (rule power_increasing) simp_all

text \<open>Every \<open>u64\<close> converts to a finite value.\<close>

lemma round_mag_nat_finite:
  assumes "n < 2 ^ 64"
  shows "round_mag (n * one_u) 1 < inf_bits"
proof -
  have "n * one_u \<le> 2 ^ 1023 * one_u"
  proof (rule mult_le_mono1)
    have "(2::nat) ^ 64 \<le> 2 ^ 1023" by (rule power_increasing) simp_all
    with assms show "n \<le> 2 ^ 1023" by (rule less_imp_le [OF less_le_trans])
  qed
  also have "2 ^ 1023 * one_u = 2 ^ 52 * 2 ^ 2045"
    unfolding one_u_def by (simp only: power_add [symmetric]) simp
  also have "\<dots> = mag (2045 * 2 ^ 52 + 2 ^ 52)" by (rule mag_normal [symmetric]) simp_all
  finally have "n * one_u \<le> mag (2045 * 2 ^ 52 + 2 ^ 52) * 1" by (simp only: mult_1_right)
  from round_mag_le [OF zero_less_one this] show ?thesis by simp
qed

section \<open>Values between powers of two\<close>

text \<open>Zero, or between \<open>2 ^ lo\<close> and \<open>2 ^ hi\<close> units.\<close>

definition bounded :: "nat \<Rightarrow> nat \<Rightarrow> f64 \<Rightarrow> bool" where
  "bounded lo hi x \<longleftrightarrow> (\<exists>u. view x = Fin False u \<and> (u = 0 \<or> 2 ^ lo \<le> u) \<and> u \<le> 2 ^ hi)"

lemma view_pow2:
  assumes "53 \<le> k" "k < 2098"
  shows "\<exists>x. view x = Fin False (2 ^ k)"
proof -
  have m: "mag ((k - 52) * 2 ^ 52 + 2 ^ 52) = 2 ^ 52 * 2 ^ (k - 52)" by (rule mag_normal) simp_all
  have "(k - 52) * 2 ^ 52 \<le> 2045 * 2 ^ 52" using assms by simp
  then have "(k - 52) * 2 ^ 52 + 2 ^ 52 < inf_bits" by simp
  then have "view (encode False ((k - 52) * 2 ^ 52 + 2 ^ 52)) = Fin False (2 ^ 52 * 2 ^ (k - 52))"
    using view_encode [of "(k - 52) * 2 ^ 52 + 2 ^ 52" False] m by (simp only: less_imp_le less_irrefl if_False) auto
  moreover have "(2::nat) ^ 52 * 2 ^ (k - 52) = 2 ^ k" using assms by (simp only: power_add [symmetric]) simp
  ultimately show ?thesis by auto
qed

lemma bounded_round:
  assumes "0 < D" "53 \<le> lo" "lo \<le> hi" "hi < 2098"
    and "N = 0 \<or> 2 ^ lo * D \<le> N" "N \<le> 2 ^ hi * D"
  shows "bounded lo hi (f64_round False N D)"
proof (cases "N = 0")
  case True
  then show ?thesis by (simp add: bounded_def view_round)
next
  case False
  have "53 \<le> hi" "lo < 2098" using assms by simp_all
  then obtain x y where "view x = Fin False (2 ^ lo)" "view y = Fin False (2 ^ hi)"
    using view_pow2 [of lo] view_pow2 [of hi] assms(2,4) by blast
  from view_round_between [OF this assms(1)] False assms(5,6) show ?thesis by (auto simp: bounded_def)
qed

lemma bounded_of_nat:
  assumes "n \<le> 2 ^ k" "k < 1024"
  shows "bounded 1074 (1074 + k) (f64_of_nat n)"
  unfolding f64_of_nat_def
proof (rule bounded_round)
  show "n * one_u = 0 \<or> 2 ^ 1074 * 1 \<le> n * one_u" unfolding one_u_def by (cases n) (simp_all del: power_numeral)
  have "n * one_u \<le> 2 ^ k * one_u" using assms(1) by (rule mult_le_mono1)
  then show "n * one_u \<le> 2 ^ (1074 + k) * 1" unfolding one_u_def by (simp only: power_add mult_1_right mult.commute)
qed (use assms(2) in simp_all)

lemma bounded_add:
  assumes "bounded lo hi x" "bounded lo hi y" "53 \<le> lo" "lo \<le> hi" "Suc hi < 2098"
  shows "bounded lo (Suc hi) (f64_add x y)"
proof -
  obtain u v where u: "view x = Fin False u" "u = 0 \<or> 2 ^ lo \<le> u" "u \<le> 2 ^ hi"
    and v: "view y = Fin False v" "v = 0 \<or> 2 ^ lo \<le> v" "v \<le> 2 ^ hi"
    using assms(1,2) by (auto simp: bounded_def)
  have "bounded lo (Suc hi) (f64_round False (u + v) 1)"
    using assms(3-5) u v by (intro bounded_round) auto
  then show ?thesis using f64_add_nn [OF u(1) v(1)] by simp
qed

lemma bounded_weaken: "bounded lo hi x \<Longrightarrow> lo' \<le> lo \<Longrightarrow> hi \<le> hi' \<Longrightarrow> bounded lo' hi' x"
proof -
  assume b: "bounded lo hi x" "lo' \<le> lo" "hi \<le> hi'"
  then obtain u where u: "view x = Fin False u" "u = 0 \<or> 2 ^ lo \<le> u" "u \<le> 2 ^ hi" by (auto simp: bounded_def)
  have "(2::nat) ^ lo' \<le> 2 ^ lo" "(2::nat) ^ hi \<le> 2 ^ hi'" using b(2,3) by (simp_all add: power_increasing)
  then have "u = 0 \<or> 2 ^ lo' \<le> u" "u \<le> 2 ^ hi'" using u(2,3) order_trans by blast+
  with u(1) show ?thesis by (simp add: bounded_def)
qed

lemma bounded_mul_of_nat:
  assumes "bounded lo hi x" "0 < n" "n \<le> 2 ^ k" "n \<le> 2 ^ 53" "53 \<le> lo" "lo \<le> hi" "hi + k < 2098"
  shows "bounded lo (hi + k) (f64_mul x (f64_of_nat n))"
proof -
  obtain u where u: "view x = Fin False u" "u = 0 \<or> 2 ^ lo \<le> u" "u \<le> 2 ^ hi"
    using assms(1) by (auto simp: bounded_def)
  have "bounded lo (hi + k) (f64_round False (u * (n * one_u)) one_u)"
  proof (rule bounded_round)
    show "u * (n * one_u) = 0 \<or> 2 ^ lo * one_u \<le> u * (n * one_u)"
    proof (cases "u = 0")
      case False
      with u(2) have "2 ^ lo * 1 \<le> u * n" using assms(2) by (intro mult_le_mono) simp_all
      then have "2 ^ lo * 1 * one_u \<le> u * n * one_u" by (rule mult_le_mono1)
      then show ?thesis by (simp add: mult.assoc)
    qed simp
    have "u * n * one_u \<le> 2 ^ hi * 2 ^ k * one_u" using u(3) assms(3) by (intro mult_le_mono) simp_all
    then show "u * (n * one_u) \<le> 2 ^ (hi + k) * one_u" by (simp only: power_add mult.assoc)
  qed (use assms in simp_all)
  then show ?thesis using f64_mul_nn [OF u(1) view_of_nat [OF assms(4)]] by simp
qed

lemma bounded_div_of_nat:
  assumes "m \<le> n" "0 < n" "n \<le> 2 ^ k" "n \<le> 2 ^ 53" "k \<le> 1021"
  shows "bounded (1074 - k) 1074 (f64_div (f64_of_nat m) (f64_of_nat n))"
proof -
  have eq: "f64_div (f64_of_nat m) (f64_of_nat n) = f64_round False (m * one_u * one_u) (n * one_u)"
    using assms by (intro f64_div_nn view_of_nat) simp_all
  have k: "one_u = 2 ^ (1074 - k) * 2 ^ k" unfolding one_u_def using assms(5) by (simp only: power_add [symmetric]) simp
  show ?thesis
    unfolding eq
  proof (rule bounded_round)
    show "m * one_u * one_u = 0 \<or> 2 ^ (1074 - k) * (n * one_u) \<le> m * one_u * one_u"
    proof (cases "m = 0")
      case False
      have "2 ^ (1074 - k) * n \<le> 2 ^ (1074 - k) * 2 ^ k" using assms(3) by (rule mult_le_mono2)
      also have "\<dots> \<le> m * one_u" using False by (simp add: k)
      finally have "2 ^ (1074 - k) * n * one_u \<le> m * one_u * one_u" by (rule mult_le_mono1)
      then show ?thesis by (simp add: mult.assoc)
    qed simp
    have "m * one_u * one_u \<le> one_u * (n * one_u)" using assms(1) by simp
    then show "m * one_u * one_u \<le> 2 ^ 1074 * (n * one_u)" unfolding one_u_def .
  qed (use assms in simp_all)
qed

lemma mag_dyadic: "m < 2 ^ 53 \<Longrightarrow> \<exists>b. mag b = m * 2 ^ j"
proof (cases "m = 0")
  case False
  assume "m < 2 ^ 53"
  then have "nbits m \<le> 53" by (simp only: nbits_le_iff)
  then have "2 ^ (nbits (m * 2 ^ j) - 53) dvd (2::nat) ^ j"
    using False by (intro le_imp_power_dvd) (simp add: nbits_mult_power2)
  then have "mag (round_mag (m * 2 ^ j) 1) = m * 2 ^ j" by (intro mag_round_exact dvd_mult)
  then show ?thesis by blast
qed (auto intro: exI [of _ 0])

end
