(* ===== verification/Ewma.thy ===== *)
theory Ewma
  imports Float64
begin

text \<open>
  \<open>vortex-core/src/load_balancer/ewma.rs\<close>: the Peak EWMA tracker. \<open>PeakEwma\<close> is the struct with its
  two atomics as 64-bit words; \<open>observe_loop\<close> is the compare-and-swap loop of \<open>observe_latency\<close> run
  against a script of interference from other threads; \<open>obs_step\<close> is the same loop as a step relation
  over any number of threads. The lemmas give the arithmetic of one update under IEEE rounding, the
  bounds of a whole history, linearizability and lock-freedom of the loop, and the order properties
  of the routing score.
\<close>

section \<open>State and operations\<close>

record PeakEwma =
  ewma :: u64
  decay_alpha :: f64
  active_requests :: u64

definition peak_ewma_new :: "f64 \<Rightarrow> f64 \<Rightarrow> PeakEwma" where
  "peak_ewma_new initial_latency_ms alpha =
     \<lparr>ewma = to_bits initial_latency_ms, decay_alpha = alpha, active_requests = 0\<rparr>"

definition get_ewma :: "PeakEwma \<Rightarrow> f64" where
  "get_ewma e = from_bits (ewma e)"

text \<open>One turn of the loop: the value to store, from the value read and the sample.\<close>

definition next_ewma :: "f64 \<Rightarrow> f64 \<Rightarrow> f64 \<Rightarrow> f64" where
  "next_ewma alpha current_ewma rtt_ms =
     (if f64_gt rtt_ms current_ewma then rtt_ms
      else f64_add (f64_mul rtt_ms (f64_sub f64_one alpha)) (f64_mul current_ewma alpha))"

definition next_bits :: "f64 \<Rightarrow> f64 \<Rightarrow> u64 \<Rightarrow> u64" where
  "next_bits alpha rtt_ms current_bits = to_bits (next_ewma alpha (from_bits current_bits) rtt_ms)"

text \<open>
  \<open>AtomicU64::compare_exchange_weak\<close>: the new content of the cell, and \<open>Inr\<close> of the old value on
  success or \<open>Inl\<close> of the value found on failure. It may fail spuriously.
\<close>

fun compare_exchange_weak :: "bool \<Rightarrow> u64 \<Rightarrow> u64 \<Rightarrow> u64 \<Rightarrow> u64 \<times> (u64 + u64)" where
  "compare_exchange_weak spurious cell expected new_bits =
     (if cell = expected \<and> \<not> spurious then (new_bits, Inr expected) else (cell, Inl cell))"

text \<open>
  The loop. Each entry of the script is what happens between the read of \<open>current_bits\<close> and the
  exchange of one turn: a store by another thread, if any, and whether the exchange fails
  spuriously. After the script the loop runs undisturbed.
\<close>

type_synonym interference = "(u64 option \<times> bool) list"

definition interfere :: "u64 option \<Rightarrow> u64 \<Rightarrow> u64" where
  "interfere st cell = (case st of None \<Rightarrow> cell | Some v \<Rightarrow> v)"

function observe_loop :: "f64 \<Rightarrow> f64 \<Rightarrow> interference \<Rightarrow> u64 \<Rightarrow> u64 \<Rightarrow> u64" where
  "observe_loop alpha rtt_ms [] cell current_bits =
     (case compare_exchange_weak False cell current_bits (next_bits alpha rtt_ms current_bits) of
        (cell', Inr _) \<Rightarrow> cell'
      | (cell', Inl updated_bits) \<Rightarrow> observe_loop alpha rtt_ms [] cell' updated_bits)"
| "observe_loop alpha rtt_ms ((st, spurious) # script) cell current_bits =
     (case compare_exchange_weak spurious (interfere st cell) current_bits
             (next_bits alpha rtt_ms current_bits) of
        (cell', Inr _) \<Rightarrow> cell'
      | (cell', Inl updated_bits) \<Rightarrow> observe_loop alpha rtt_ms script cell' updated_bits)"
  by pat_completeness auto
termination
  by (relation "measure (\<lambda>(alpha, rtt, script, cell, cur). 2 * length script + (if cell = cur then 0 else 1))")
    (auto split: if_splits)

definition observe_latency_under :: "interference \<Rightarrow> PeakEwma \<Rightarrow> f64 \<Rightarrow> PeakEwma" where
  "observe_latency_under script e rtt_ms =
     e\<lparr>ewma := observe_loop (decay_alpha e) rtt_ms script (ewma e) (ewma e)\<rparr>"

definition observe_latency :: "PeakEwma \<Rightarrow> f64 \<Rightarrow> PeakEwma" where
  "observe_latency e rtt_ms = observe_latency_under [] e rtt_ms"

definition increment_active :: "PeakEwma \<Rightarrow> PeakEwma" where
  "increment_active e = e\<lparr>active_requests := active_requests e + 1\<rparr>"

text \<open>\<open>Drop\<close> of the \<open>ActiveRequestGuard\<close> that \<open>increment_active\<close> returns.\<close>

definition drop_guard :: "PeakEwma \<Rightarrow> PeakEwma" where
  "drop_guard e = e\<lparr>active_requests := active_requests e - 1\<rparr>"

definition calculate_score :: "PeakEwma \<Rightarrow> f64" where
  "calculate_score e =
     f64_mul (f64_add (get_ewma e) f64_one) (f64_add (f64_of_u64 (active_requests e)) f64_one)"

text \<open>
  Threads that observe concurrently: thread \<open>i\<close> brings the sample \<open>r i\<close>. The order of commits and the
  number of commits a thread had seen at its last read are recorded for the proofs only.
\<close>

datatype obs_pc = Start | Loop u64 nat | Done

record obs_sys =
  cell :: u64
  pcs :: "nat \<Rightarrow> obs_pc"
  committed :: "nat list"

definition obs_init :: "u64 \<Rightarrow> obs_sys" where
  "obs_init c = \<lparr>cell = c, pcs = (\<lambda>_. Start), committed = []\<rparr>"

inductive obs_step :: "f64 \<Rightarrow> (nat \<Rightarrow> f64) \<Rightarrow> obs_sys \<Rightarrow> obs_sys \<Rightarrow> bool" for alpha r where
  load: "pcs s i = Start \<Longrightarrow>
    obs_step alpha r s (s\<lparr>pcs := (pcs s)(i := Loop (cell s) (length (committed s)))\<rparr>)"
| commit: "pcs s i = Loop cur n \<Longrightarrow> cell s = cur \<Longrightarrow>
    obs_step alpha r s (s\<lparr>cell := next_bits alpha (r i) cur, pcs := (pcs s)(i := Done),
                          committed := committed s @ [i]\<rparr>)"
| retry: "pcs s i = Loop cur n \<Longrightarrow>
    obs_step alpha r s (s\<lparr>pcs := (pcs s)(i := Loop (cell s) (length (committed s)))\<rparr>)"

inductive obs_reachable :: "f64 \<Rightarrow> (nat \<Rightarrow> f64) \<Rightarrow> u64 \<Rightarrow> obs_sys \<Rightarrow> bool" for alpha r c where
  init: "obs_reachable alpha r c (obs_init c)"
| step: "obs_reachable alpha r c s \<Longrightarrow> obs_step alpha r s t \<Longrightarrow> obs_reachable alpha r c t"

section \<open>One update\<close>

lemmas ewma_defs = peak_ewma_new_def get_ewma_def increment_active_def drop_guard_def

lemma observe_loop_quiet [simp]: "observe_loop alpha rtt [] c c = next_bits alpha rtt c"
  by simp

declare observe_loop.simps [simp del]

lemma observe_latency_eq:
  "observe_latency e rtt = e\<lparr>ewma := next_bits (decay_alpha e) rtt (ewma e)\<rparr>"
  by (simp add: observe_latency_def observe_latency_under_def observe_loop.simps)

lemma get_ewma_observe:
  "get_ewma (observe_latency e rtt) = next_ewma (decay_alpha e) (get_ewma e) rtt"
  by (simp add: observe_latency_eq get_ewma_def next_bits_def)

lemma get_ewma_observe_new:
  "get_ewma (observe_latency (peak_ewma_new init alpha) rtt) = next_ewma alpha init rtt"
  by (simp add: get_ewma_observe) (simp add: ewma_defs)

lemma observe_latency_frame [frame_simps]:
  "decay_alpha (observe_latency e rtt) = decay_alpha e"
  "active_requests (observe_latency e rtt) = active_requests e"
  by (simp_all add: observe_latency_eq)

lemma guard_frame [frame_simps]:
  "ewma (increment_active e) = ewma e" "decay_alpha (increment_active e) = decay_alpha e"
  "ewma (drop_guard e) = ewma e" "decay_alpha (drop_guard e) = decay_alpha e"
  by (simp_all add: ewma_defs)

text \<open>
  What the latencies of this program look like: zero, or at least \<open>2 ^ -1021\<close> milliseconds, so that
  halving them is exact.
\<close>

definition latency :: "f64 \<Rightarrow> bool" where
  "latency x \<longleftrightarrow> (case view x of Fin s u \<Rightarrow> \<not> s \<and> (u = 0 \<or> 2 ^ 53 \<le> u) | _ \<Rightarrow> False)"

lemma latencyE:
  assumes "latency x"
  obtains u where "view x = Fin False u" "u = 0 \<or> 2 ^ 53 \<le> u"
  using assms by (auto simp: latency_def split: fclass.splits)

definition nonneg :: "f64 \<Rightarrow> bool" where
  "nonneg x \<longleftrightarrow> (case view x of Fin s u \<Rightarrow> \<not> s | _ \<Rightarrow> False)"

lemma nonnegE:
  assumes "nonneg x"
  obtains u where "view x = Fin False u" "fval x = int u" "\<not> is_nan x"
  using assms that fval_Fin [of x] by (auto simp: nonneg_def sval_def split: fclass.splits)

lemma nonnegI: "view x = Fin False u \<Longrightarrow> nonneg x"
  by (simp add: nonneg_def)

lemma latency_nonneg: "latency x \<Longrightarrow> nonneg x"
  by (elim latencyE) (rule nonnegI)

lemma next_ewma_decay:
  assumes r: "view rtt = Fin False r" "r = 0 \<or> 2 ^ 53 \<le> r" and c: "view cur = Fin False c"
    and le: "r \<le> c"
  shows "\<exists>v. view (next_ewma f64_half cur rtt) = Fin False v \<and> r \<le> v \<and> v \<le> c"
proof -
  have "\<not> f64_gt rtt cur" using f64_gt_nn [OF r(1) c] le by simp
  then have n: "next_ewma f64_half cur rtt = f64_add (f64_mul rtt f64_half) (f64_mul cur f64_half)"
    by (simp add: next_ewma_def one_minus_half)
  show ?thesis
  proof (cases "r = 0")
    case True
    have z: "view (f64_mul rtt f64_half) = Fin False 0"
      using f64_mul_nn [OF r(1) view_half] True by (simp add: view_round)
    have "f64_mul cur f64_half = f64_round False (c * half_u) one_u"
      by (rule f64_mul_nn [OF c view_half])
    then obtain h where h: "view (f64_mul cur f64_half) = Fin False h" "h \<le> c"
      using view_round_between [OF r(1) c, of one_u "c * half_u"] True by (auto simp: one_u_half)
    have "f64_add (f64_mul rtt f64_half) (f64_mul cur f64_half) = f64_round False (h * 1) 1"
      using f64_add_nn [OF z h(1)] by simp
    also have "\<dots> = f64_mul cur f64_half" by (rule f64_round_exact [OF h(1)]) simp
    finally show ?thesis using n h True by simp
  next
    case False
    with r(2) le have big: "2 ^ 53 \<le> r" "2 ^ 53 \<le> c" by simp_all
    note hr = mul_half_exact [OF r(1) big(1)] and hc = mul_half_exact [OF c big(2)]
    have "next_ewma f64_half cur rtt = f64_round False (r div 2 + c div 2) 1"
      using n f64_add_nn [OF hr(1) hc(1)] by simp
    moreover have "r * 1 \<le> r div 2 + c div 2" "r div 2 + c div 2 \<le> c * 1"
      using le hr(2) hc(2) by presburger+
    ultimately show ?thesis using view_round_between [OF r(1) c, of 1] by simp
  qed
qed

text \<open>One update with the decay of the backends: it stays between the sample and the old average.\<close>

lemma next_ewma_bounds:
  assumes "latency rtt" "nonneg cur"
  shows "nonneg (next_ewma f64_half cur rtt)"
    and "min (fval rtt) (fval cur) \<le> fval (next_ewma f64_half cur rtt)"
    and "fval (next_ewma f64_half cur rtt) \<le> max (fval rtt) (fval cur)"
proof -
  obtain r where r: "view rtt = Fin False r" "r = 0 \<or> 2 ^ 53 \<le> r" using assms(1) by (rule latencyE)
  obtain c where c: "view cur = Fin False c" "fval cur = int c" using assms(2) by (rule nonnegE)
  have fr: "fval rtt = int r" using fval_Fin [OF r(1)] by (simp add: sval_def)
  have "\<exists>v. view (next_ewma f64_half cur rtt) = Fin False v \<and> min r c \<le> v \<and> v \<le> max r c"
  proof (cases "c < r")
    case True
    then have "next_ewma f64_half cur rtt = rtt"
      using f64_gt_nn [OF r(1) c(1)] by (simp add: next_ewma_def)
    with r True show ?thesis by simp
  next
    case False
    with next_ewma_decay [OF r c(1)] show ?thesis by auto
  qed
  then obtain v where v: "view (next_ewma f64_half cur rtt) = Fin False v" "min r c \<le> v" "v \<le> max r c"
    by blast
  then have "fval (next_ewma f64_half cur rtt) = int v" using fval_Fin [OF v(1)] by (simp add: sval_def)
  with v fr c show "nonneg (next_ewma f64_half cur rtt)"
    "min (fval rtt) (fval cur) \<le> fval (next_ewma f64_half cur rtt)"
    "fval (next_ewma f64_half cur rtt) \<le> max (fval rtt) (fval cur)"
    by (auto simp: nonneg_def)
qed

lemma latency_of_nat: "n \<le> 2 ^ 53 \<Longrightarrow> latency (f64_of_nat n)"
  using one_u_big by (cases n) (auto simp: latency_def view_simps)

section \<open>Whole histories\<close>

text \<open>
  C12. A backend's tracker (decay 0.5) fed any sequence of latencies stays, under IEEE rounding,
  between the least and the greatest of the initial value and the samples, and stays finite and
  non-negative: one slow request is remembered, and no sequence drives the average out of the
  range it was observed in.
\<close>

theorem ewma_history_bounds:
  fixes samples :: "f64 list"
  assumes "nonneg init" "list_all latency samples"
  defines "e \<equiv> foldl observe_latency (peak_ewma_new init f64_half) samples"
  shows "nonneg (get_ewma e)
    \<and> Min (set (map fval (init # samples))) \<le> fval (get_ewma e)
    \<and> fval (get_ewma e) \<le> Max (set (map fval (init # samples)))"
proof -
  have gen: "nonneg (get_ewma (foldl observe_latency e0 samples))
      \<and> lo \<le> fval (get_ewma (foldl observe_latency e0 samples))
      \<and> fval (get_ewma (foldl observe_latency e0 samples)) \<le> hi"
    if "decay_alpha e0 = f64_half" "nonneg (get_ewma e0)" "list_all latency samples"
      "lo \<le> fval (get_ewma e0)" "fval (get_ewma e0) \<le> hi"
      "\<forall>x \<in> set samples. lo \<le> fval x \<and> fval x \<le> hi" for e0 lo hi
    using that
  proof (induction samples arbitrary: e0)
    case (Cons x xs)
    have n: "get_ewma (observe_latency e0 x) = next_ewma f64_half (get_ewma e0) x"
      using Cons.prems by (simp add: get_ewma_observe)
    have "latency x" using Cons.prems by simp
    note b = next_ewma_bounds [OF this Cons.prems(2)]
    show ?case
      unfolding foldl_Cons
      by (rule Cons.IH) (use Cons.prems b n in \<open>auto simp: frame_simps min_le_iff_disj le_max_iff_disj\<close>)
  qed simp
  show ?thesis
    unfolding e_def
    by (rule gen) (use assms in \<open>auto simp: ewma_defs\<close>)
qed

theorem ewma_history_bounds_witness:
  "nonneg (f64_of_nat 50) \<and> list_all latency [f64_of_nat 500, f64_of_nat 20] \<and>
   fval (get_ewma (foldl observe_latency (peak_ewma_new (f64_of_nat 50) f64_half)
                     [f64_of_nat 500, f64_of_nat 20]))
     \<le> Max (set (map fval [f64_of_nat 50, f64_of_nat 500, f64_of_nat 20]))"
  using ewma_history_bounds [of "f64_of_nat 50" "[f64_of_nat 500, f64_of_nat 20]"]
  by (simp add: latency_of_nat latency_nonneg)

text \<open>
  The bound of \<open>ewma_history_bounds\<close> is special to decay 0.5: with decay 0.2, a tracker at 3.0 ms that observes a
  sample of 3.0 ms moves to the next larger double, above every value it has seen.
\<close>

lemma ewma_exceeds_maximum_for_other_decay:
  "f64_gt (get_ewma (observe_latency (peak_ewma_new (f64_of_nat 3) (F64 0x3FC999999999999A)) (f64_of_nat 3)))
     (f64_of_nat 3)"
proof -
  define a where "a = F64 0x3FC999999999999A"
  have va: "view a = Fin False (0x1999999999999A * 2 ^ 1019)"
    unfolding a_def by (rule view_lit) simp_all
  have v3: "view (f64_of_nat 3) = Fin False (3 * one_u)" by (simp add: view_simps)
  have u: "one_u = 2 ^ 55 * 2 ^ 1019" unfolding one_u_def by (simp only: power_add [symmetric]) simp
  have "view (f64_round False (one_u - 0x1999999999999A * 2 ^ 1019) 1)
      = Fin False (0x1999999999999A * 2 ^ (1019 + 2))"
    by (rule view_round_dyadic [where m = "2 ^ 55 - 0x1999999999999A"])
      (auto simp: u diff_mult_distrib rne_div_def intro!: nbits_eqI [of 54, simplified])
  moreover have "f64_sub f64_one a = f64_round False (one_u - 0x1999999999999A * 2 ^ 1019) 1"
    by (rule f64_sub_nn [OF view_one va]) (simp add: u)
  ultimately have v8: "view (f64_sub f64_one a) = Fin False (0x1999999999999A * 2 ^ (1019 + 2))" by simp
  have p8: "view (f64_mul (f64_of_nat 3) (f64_sub f64_one a)) = Fin False (0x13333333333334 * 2 ^ (1021 + 2))"
    unfolding f64_mul_nn [OF v3 v8]
    by (rule view_round_dyadic [where m = "3 * 0x1999999999999A"])
      (auto simp: ac_simps rne_div_def intro!: nbits_eqI [of 54, simplified])
  have p2: "view (f64_mul (f64_of_nat 3) a) = Fin False (0x13333333333334 * 2 ^ (1019 + 2))"
    unfolding f64_mul_nn [OF v3 va]
    by (rule view_round_dyadic [where m = "3 * 0x1999999999999A"])
      (auto simp: ac_simps rne_div_def intro!: nbits_eqI [of 54, simplified])
  have sum: "view (f64_add (f64_mul (f64_of_nat 3) (f64_sub f64_one a)) (f64_mul (f64_of_nat 3) a))
      = Fin False (0x18000000000001 * 2 ^ (1021 + 2))"
    unfolding f64_add_nn [OF p8 p2]
    by (rule view_round_dyadic [where m = "5 * 0x13333333333334"])
      (auto simp: rne_div_def intro!: nbits_eqI [of 54, simplified])
  have "next_ewma a (f64_of_nat 3) (f64_of_nat 3)
      = f64_add (f64_mul (f64_of_nat 3) (f64_sub f64_one a)) (f64_mul (f64_of_nat 3) a)"
    using f64_gt_nn [OF v3 v3] by (simp add: next_ewma_def)
  moreover have "3 * one_u < 0x18000000000001 * 2 ^ (1021 + 2)" by (simp add: u)
  ultimately show ?thesis using f64_gt_nn [OF sum v3] by (simp only: get_ewma_observe_new a_def)
qed

section \<open>The compare-and-swap loop\<close>

definition stores :: "interference \<Rightarrow> u64 \<Rightarrow> u64" where
  "stores script c = foldl (\<lambda>c (st, _). interfere st c) c script"

lemma observe_loop_commits:
  "\<exists>k \<le> length script. observe_loop alpha rtt script c cur = next_bits alpha rtt (stores (take k script) c)"
proof (induction alpha rtt script c cur rule: observe_loop.induct)
  case (1 alpha rtt c cur)
  then show ?case by (auto simp: observe_loop.simps stores_def)
next
  case (2 alpha rtt st spurious script c cur)
  show ?case
  proof (cases "interfere st c = cur \<and> \<not> spurious")
    case True
    then show ?thesis
      by (intro exI [of _ 1]) (simp add: observe_loop.simps stores_def)
  next
    case False
    then have "observe_loop alpha rtt ((st, spurious) # script) c cur
        = observe_loop alpha rtt script (interfere st c) (interfere st c)"
      by (auto simp: observe_loop.simps)
    moreover have "\<exists>k \<le> length script. observe_loop alpha rtt script (interfere st c) (interfere st c)
        = next_bits alpha rtt (stores (take k script) (interfere st c))"
      using "2" False by auto
    ultimately obtain k where "k \<le> length script"
      "observe_loop alpha rtt ((st, spurious) # script) c cur
        = next_bits alpha rtt (stores (take k script) (interfere st c))"
      by metis
    then show ?thesis by (intro exI [of _ "Suc k"]) (simp add: stores_def)
  qed
qed

text \<open>
  The loop of \<open>observe_latency\<close> returns under every finite script of interference and spurious
  failures, and what it stores is the update of the value the cell held at that very moment: no
  concurrent store between the read and the exchange is overwritten blindly.
\<close>

lemma observe_latency_atomic:
  "\<exists>k \<le> length script.
     get_ewma (observe_latency_under script e rtt)
       = next_ewma (decay_alpha e) (from_bits (stores (take k script) (ewma e))) rtt"
  using observe_loop_commits [of script "decay_alpha e" rtt "ewma e" "ewma e"]
  by (auto simp: observe_latency_under_def get_ewma_def next_bits_def)

definition obs_inv :: "f64 \<Rightarrow> (nat \<Rightarrow> f64) \<Rightarrow> u64 \<Rightarrow> obs_sys \<Rightarrow> bool" where
  "obs_inv alpha r c s \<longleftrightarrow>
     distinct (committed s) \<and> set (committed s) = {i. pcs s i = Done} \<and>
     cell s = foldl (\<lambda>b i. next_bits alpha (r i) b) c (committed s) \<and>
     (\<forall>i cur n. pcs s i = Loop cur n \<longrightarrow>
        n \<le> length (committed s) \<and> (n = length (committed s) \<longrightarrow> cell s = cur))"

lemma obs_step_inv: "obs_step alpha r s t \<Longrightarrow> obs_inv alpha r c s \<Longrightarrow> obs_inv alpha r c t"
proof (induction rule: obs_step.induct)
  case (commit s i cur n)
  have "na \<le> length (committed s)" if "pcs s j = Loop cur' na" for j cur' na
    using commit.prems that by (auto simp: obs_inv_def)
  with commit show ?case by (fastforce simp: obs_inv_def)
qed (auto simp: obs_inv_def)

lemma obs_reachable_inv: "obs_reachable alpha r c s \<Longrightarrow> obs_inv alpha r c s"
proof (induction rule: obs_reachable.induct)
  case init
  show ?case by (simp add: obs_inv_def obs_init_def)
next
  case (step s t)
  then show ?case by (blast intro: obs_step_inv)
qed

lemma foldl_next_bits:
  "foldl (\<lambda>b i. next_bits (decay_alpha e) (r i) b) (ewma e) is = ewma (foldl observe_latency e (map r is))"
proof (induction "is" arbitrary: e)
  case (Cons i "is")
  have "foldl (\<lambda>b i. next_bits (decay_alpha e) (r i) b) (ewma e) (i # is)
      = foldl (\<lambda>b j. next_bits (decay_alpha (observe_latency e (r i))) (r j) b)
          (ewma (observe_latency e (r i))) is"
    by (simp add: observe_latency_eq)
  also have "\<dots> = ewma (foldl observe_latency (observe_latency e (r i)) (map r is))" by (rule Cons.IH)
  finally show ?case by simp
qed simp

text \<open>
  C13. Linearizability: in every reachable state of any number of threads observing concurrently, the
  shared cell holds what the sequential \<open>observe_latency\<close> computes from the samples of exactly the
  threads that have finished, each applied once, in some order.
\<close>

theorem observe_latency_linearizable:
  assumes "obs_reachable (decay_alpha e) r (ewma e) s"
  shows "\<exists>order. distinct order \<and> set order = {i. pcs s i = Done} \<and>
           cell s = ewma (foldl observe_latency e (map r order))"
  using obs_reachable_inv [OF assms] by (auto simp: obs_inv_def foldl_next_bits)

text \<open>
  Lock-freedom: a thread whose exchange fails because the cell has changed has been overtaken by
  a thread that did commit since its last read, so every failure pays for another's progress.
\<close>

lemma observe_latency_lock_free:
  assumes "obs_reachable alpha r c s" "pcs s i = Loop cur n" "cell s \<noteq> cur"
  shows "n < length (committed s)"
  using obs_reachable_inv [OF assms(1)] assms(2,3) by (force simp: obs_inv_def)

text \<open>A run in which thread 0 reads, thread 1 reads and commits, and thread 0's exchange then fails.\<close>

definition obs_race :: "f64 \<Rightarrow> (nat \<Rightarrow> f64) \<Rightarrow> u64 \<Rightarrow> obs_sys" where
  "obs_race alpha r c = \<lparr>cell = next_bits alpha (r 1) c,
     pcs = ((\<lambda>_. Start)(0 := Loop c 0, 1 := Done)), committed = [1]\<rparr>"

lemma obs_race_reachable: "obs_reachable alpha r c (obs_race alpha r c)"
proof -
  have "obs_reachable alpha r c (obs_init c\<lparr>pcs := ((\<lambda>_. Start)(0 := Loop c 0))\<rparr>)"
    using obs_reachable.step [OF obs_reachable.init obs_step.load [of "obs_init c" 0]]
    by (simp add: obs_init_def)
  from obs_reachable.step [OF this obs_step.load [of _ 1]]
  have "obs_reachable alpha r c (obs_init c\<lparr>pcs := ((\<lambda>_. Start)(0 := Loop c 0, 1 := Loop c 0))\<rparr>)"
    by (simp add: obs_init_def)
  from obs_reachable.step [OF this obs_step.commit [of _ 1 c 0]] show ?thesis
    by (simp add: obs_init_def obs_race_def fun_upd_twist)
qed

lemma next_bits_peak:
  "m < n \<Longrightarrow> n \<le> 2 ^ 53 \<Longrightarrow> next_bits alpha (f64_of_nat n) (to_bits (f64_of_nat m)) = to_bits (f64_of_nat n)"
  by (simp add: next_bits_def next_ewma_def f64_gt_of_nat)

theorem observe_latency_linearizable_witness:
  "let e = peak_ewma_new (f64_of_nat 50) f64_half; r = (\<lambda>_. f64_of_nat 500);
       s = obs_race (decay_alpha e) r (ewma e)
   in obs_reachable (decay_alpha e) r (ewma e) s \<and>
      (\<exists>order. distinct order \<and> set order = {i. pcs s i = Done} \<and>
         cell s = ewma (foldl observe_latency e (map r order)))"
  unfolding Let_def
  using observe_latency_linearizable [OF obs_race_reachable] obs_race_reachable by blast

section \<open>In-flight requests and the routing score\<close>

datatype guard_event = Acquire | Release

fun guard_run :: "PeakEwma \<Rightarrow> guard_event list \<Rightarrow> PeakEwma" where
  "guard_run e [] = e"
| "guard_run e (Acquire # evs) = guard_run (increment_active e) evs"
| "guard_run e (Release # evs) = guard_run (drop_guard e) evs"

text \<open>The number of live guards after a trace; a guard is dropped only while it is live.\<close>

fun live_guards :: "nat \<Rightarrow> guard_event list \<Rightarrow> nat option" where
  "live_guards n [] = Some n"
| "live_guards n (Acquire # evs) = live_guards (Suc n) evs"
| "live_guards n (Release # evs) = (case n of 0 \<Rightarrow> None | Suc m \<Rightarrow> live_guards m evs)"

lemma guard_run_active:
  "live_guards n evs = Some m \<Longrightarrow>
     guard_run e evs = e\<lparr>active_requests := active_requests e + of_nat m - of_nat n\<rparr>"
proof (induction n evs arbitrary: e rule: live_guards.induct)
  case (3 n evs)
  then show ?case by (cases n) (auto simp: ewma_defs)
qed (auto simp: ewma_defs)

text \<open>Positive values, infinity included, that are at least one.\<close>

definition ge_one :: "f64 \<Rightarrow> bool" where
  "ge_one x \<longleftrightarrow> \<not> is_nan x \<and> int one_u \<le> fval x"

lemma fval_le_inf: "\<not> is_nan x \<Longrightarrow> fval x \<le> int (mag inf_bits)"
  by (auto simp: is_nan_def fval_def sval_def intro: order_trans [of _ 0])

lemma one_u_le_inf: "one_u \<le> mag inf_bits"
  unfolding mag_inf_bits by simp

lemma ge_oneE:
  assumes "ge_one x"
  obtains (inf) "view x = Inf False" | (fin) a where "view x = Fin False a" "one_u \<le> a" "fval x = int a"
proof -
  have "0 < fval x" "\<not> is_nan x"
    using assms one_u_pos by (auto simp: ge_one_def intro: less_le_trans [of _ "int one_u"])
  then have "\<not> neg_sign x" by (auto simp: fval_def sval_def split: if_splits)
  then show ?thesis
  proof (cases "mag_bits x = inf_bits")
    case True
    with \<open>\<not> neg_sign x\<close> show ?thesis by (intro inf) (simp add: view_def)
  next
    case False
    with \<open>\<not> neg_sign x\<close> \<open>\<not> is_nan x\<close> assms show ?thesis
      by (intro fin [of "mag (mag_bits x)"])
        (simp_all add: view_def is_nan_def ge_one_def fval_def sval_def)
  qed
qed

lemma ge_one_round: "one_u * D \<le> N \<Longrightarrow> 0 < D \<Longrightarrow> ge_one (f64_round False N D)"
  using fval_round_mono [of one_u D N 1] f64_round_exact [OF view_one, of 1] fval_Fin [OF view_one]
  by (simp add: ge_one_def fval_round(2) sval_def)

lemma ge_one_inf: "ge_one (f64_inf False)"
  using fval_Inf [OF view_inf] one_u_le_inf by (simp add: ge_one_def sval_def)

lemma ge_one_mul: "ge_one x \<Longrightarrow> ge_one y \<Longrightarrow> ge_one (f64_mul x y)"
  by (elim ge_oneE; auto simp: f64_mul_def ge_one_inf intro!: ge_one_round mult_le_mono)

lemma ge_one_add_one: "nonneg x \<Longrightarrow> ge_one (f64_add x f64_one)"
  by (elim nonnegE) (auto simp: f64_add_nn [OF _ view_one] intro: ge_one_round)

lemma f64_mul_mono:
  assumes "ge_one x" "ge_one y" "ge_one x'" "ge_one y'" "fval x \<le> fval x'" "fval y \<le> fval y'"
  shows "fval (f64_mul x y) \<le> fval (f64_mul x' y')"
proof -
  have top: "fval (f64_mul x y) \<le> int (mag inf_bits)"
    using ge_one_mul [OF assms(1,2)] fval_le_inf by (simp add: ge_one_def)
  show ?thesis
  proof (cases "\<exists>a b. view x' = Fin False a \<and> view y' = Fin False b")
    case False
    then have "f64_mul x' y' = f64_inf False"
      using assms(3,4) one_u_pos by (auto simp: f64_mul_def elim!: ge_oneE)
    with top show ?thesis using fval_Inf [OF view_inf] by (simp add: sval_def)
  next
    case True
    then obtain a b where ab: "view x' = Fin False a" "view y' = Fin False b" by blast
    then have "fval x' = int a" "fval y' = int b" by (auto dest: fval_nn)
    moreover have "a < mag inf_bits" "b < mag inf_bits" using ab by (auto elim!: view_FinE)
    ultimately obtain c d where cd: "view x = Fin False c" "view y = Fin False d" "c \<le> a" "d \<le> b"
      using assms fval_Inf [of x False] fval_Inf [of y False] by (auto simp: sval_def elim!: ge_oneE)
    then show ?thesis
      unfolding f64_mul_nn [OF ab] f64_mul_nn [OF cd(1,2)]
      by (intro fval_round_mono mult_le_mono) (auto intro: mult_le_mono)
  qed
qed

lemma f64_add_one_mono:
  assumes "nonneg x" "nonneg y" "fval x \<le> fval y"
  shows "fval (f64_add x f64_one) \<le> fval (f64_add y f64_one)"
  using assms by (elim nonnegE) (auto simp: f64_add_nn [OF _ view_one] intro: fval_round_mono)

text \<open>The counter as a double.\<close>

lemma f64_of_nat_mono: "m \<le> n \<Longrightarrow> fval (f64_of_nat m) \<le> fval (f64_of_nat n)"
  unfolding f64_of_nat_def by (rule fval_round_mono) simp_all

lemma nonneg_of_u64: "nonneg (f64_of_u64 w)"
proof -
  have "unat w < 2 ^ 64" using unat_less_pow [of w] by simp
  from round_mag_nat_finite [OF this] show ?thesis
    by (simp add: f64_of_u64_def f64_of_nat_def nonneg_def view_round)
qed

text \<open>Exact results on whole milliseconds, for evaluation.\<close>

lemma mul_half_of_nat: "2 * n \<le> 2 ^ 53 \<Longrightarrow> f64_mul (f64_of_nat (2 * n)) f64_half = f64_of_nat n"
proof -
  assume n: "2 * n \<le> 2 ^ 53"
  have "2 * n * one_u * half_u = n * one_u * one_u" by (simp add: one_u_half)
  then have "f64_mul (f64_of_nat (2 * n)) f64_half = f64_round False (n * one_u * one_u) one_u"
    using f64_mul_nn [OF view_of_nat [OF n] view_half] by (simp only:)
  also have "\<dots> = f64_of_nat n" by (rule f64_round_exact) (use n in \<open>simp_all add: view_simps\<close>)
  finally show ?thesis .
qed

lemma next_ewma_nat:
  assumes "m < 2 ^ 52" "n < 2 ^ 52"
  shows "next_ewma f64_half (f64_of_nat (2 * m)) (f64_of_nat (2 * n))
         = f64_of_nat (if m < n then 2 * n else m + n)"
  using assms by (simp add: next_ewma_def f64_gt_of_nat one_minus_half mul_half_of_nat f64_add_of_nat add.commute)

lemma score_nat:
  assumes "get_ewma e = f64_of_nat n" "unat (active_requests e) = a" "n < 2 ^ 53" "a < 2 ^ 53"
  shows "calculate_score e = f64_of_nat ((n + 1) * (a + 1))"
proof -
  have "f64_add (f64_of_nat k) f64_one = f64_of_nat (k + 1)" if "k < 2 ^ 53" for k
    unfolding f64_one_def using that by (intro f64_add_of_nat) simp_all
  with assms show ?thesis
    unfolding calculate_score_def f64_of_u64_def by (simp add: f64_mul_of_nat)
qed

lemmas score_parts = ge_one_add_one [OF nonneg_of_u64] ge_one_add_one

text \<open>
  The routing score of a backend whose average is finite and non-negative is never NaN and never
  below 1 (it may overflow to infinity), so any two scores are comparable.
\<close>

lemma score_comparable:
  assumes "nonneg (get_ewma e)"
  shows "\<not> is_nan (calculate_score e) \<and> fval f64_one \<le> fval (calculate_score e)"
proof -
  have "ge_one (calculate_score e)"
    unfolding calculate_score_def by (intro ge_one_mul score_parts assms)
  then show ?thesis using fval_Fin [OF view_one] by (simp add: ge_one_def sval_def)
qed

text \<open>
  The score is monotone: a backend with no smaller average latency and no fewer requests in
  flight never scores better.
\<close>

lemma score_monotone:
  assumes "nonneg (get_ewma e)" "nonneg (get_ewma e')"
    and "fval (get_ewma e) \<le> fval (get_ewma e')"
    and "unat (active_requests e) \<le> unat (active_requests e')"
  shows "fval (calculate_score e) \<le> fval (calculate_score e')"
  unfolding calculate_score_def
proof (intro f64_mul_mono score_parts f64_add_one_mono nonneg_of_u64 assms)
  show "fval (f64_of_u64 (active_requests e)) \<le> fval (f64_of_u64 (active_requests e'))"
    unfolding f64_of_u64_def by (rule f64_of_nat_mono [OF assms(4)])
qed

text \<open>
  The guards are balanced: after any trace in which every guard taken is dropped, the tracker,
  its counter and its score are what they were; while \<open>m\<close> more are live, the counter is \<open>m\<close> higher.
\<close>

lemma guards_balanced:
  assumes "live_guards 0 evs = Some m"
  shows "guard_run e evs = e\<lparr>active_requests := active_requests e + of_nat m\<rparr>"
  using guard_run_active [OF assms] by simp

end
