(* ===== verification/Circuit_Breaker.thy ===== *)
theory Circuit_Breaker
  imports Prelude
begin

text \<open>
  \<open>vortex-core/src/domain/circuit_breaker.rs\<close>: the breaker's two atomics, its operations and, as the
  abstract specification, the history of outcomes it stands for. A reading of the system clock is
  \<open>Some secs\<close>, or \<open>None\<close> when the clock is before the epoch, where the code's \<open>unwrap\<close> panics.
  Additions on \<open>u64\<close> and \<open>usize\<close> wrap, as in the release profile (no overflow checks).
\<close>

section \<open>State and operations\<close>

definition FAILURE_THRESHOLD :: usize where
  "FAILURE_THRESHOLD = 5"

definition RESET_TIMEOUT_SECS :: u64 where
  "RESET_TIMEOUT_SECS = 30"

datatype CircuitState = Closed | Open | HalfOpen

record CircuitBreaker =
  failures :: usize
  last_failure_time :: u64

definition circuit_breaker_new :: CircuitBreaker where
  "circuit_breaker_new = \<lparr>failures = 0, last_failure_time = 0\<rparr>"

definition circuit_breaker_default :: CircuitBreaker where
  "circuit_breaker_default = circuit_breaker_new"

type_synonym clock = "u64 option"

definition cb_state :: "clock \<Rightarrow> CircuitBreaker \<Rightarrow> CircuitState outcome" where
  "cb_state clk cb =
     (if failures cb < FAILURE_THRESHOLD then Ret Closed
      else obind (unwrap clk) (\<lambda>now.
        if now > last_failure_time cb + RESET_TIMEOUT_SECS then Ret HalfOpen else Ret Open))"

definition record_success :: "CircuitBreaker \<Rightarrow> CircuitBreaker" where
  "record_success cb = cb\<lparr>failures := 0, last_failure_time := 0\<rparr>"

definition record_failure :: "clock \<Rightarrow> CircuitBreaker \<Rightarrow> CircuitBreaker outcome" where
  "record_failure clk cb =
     (let old = failures cb; cb' = cb\<lparr>failures := old + 1\<rparr>
      in if old + 1 \<ge> FAILURE_THRESHOLD
         then obind (unwrap clk) (\<lambda>now. Ret (cb'\<lparr>last_failure_time := now\<rparr>))
         else Ret cb')"

definition failure_count :: "CircuitBreaker \<Rightarrow> usize" where
  "failure_count cb = failures cb"

definition is_open :: "clock \<Rightarrow> CircuitBreaker \<Rightarrow> bool outcome" where
  "is_open clk cb = obind (cb_state clk cb) (\<lambda>st. Ret (st = Open))"

section \<open>Specification: the history of request outcomes\<close>

datatype cb_event = Success | Failure u64

fun cb_run :: "CircuitBreaker \<Rightarrow> cb_event list \<Rightarrow> CircuitBreaker outcome" where
  "cb_run cb [] = Ret cb"
| "cb_run cb (Success # evs) = cb_run (record_success cb) evs"
| "cb_run cb (Failure now # evs) = obind (record_failure (Some now) cb) (\<lambda>cb'. cb_run cb' evs)"

text \<open>
  The outcomes since the last success, as failure times in order; the breaker is closed while there
  are fewer than five, and then open for thirty seconds after the last.
\<close>

fun trailing_failures :: "cb_event list \<Rightarrow> u64 list \<Rightarrow> u64 list" where
  "trailing_failures [] ts = ts"
| "trailing_failures (Success # evs) ts = trailing_failures evs []"
| "trailing_failures (Failure t # evs) ts = trailing_failures evs (ts @ [t])"

definition spec_state :: "u64 \<Rightarrow> u64 list \<Rightarrow> CircuitState" where
  "spec_state now ts =
     (if length ts < 5 then Closed
      else if unat now > unat (last ts) + 30 then HalfOpen else Open)"

definition cb_abs :: "u64 list \<Rightarrow> CircuitBreaker \<Rightarrow> bool" where
  "cb_abs ts cb \<longleftrightarrow> failures cb = of_nat (length ts) \<and> (5 \<le> length ts \<longrightarrow> last_failure_time cb = last ts)"

section \<open>Lemmas\<close>

lemmas cb_defs = circuit_breaker_new_def record_success_def record_failure_def cb_state_def
  FAILURE_THRESHOLD_def RESET_TIMEOUT_SECS_def

lemma threshold_of_nat: "n < 2 ^ 64 \<Longrightarrow> (of_nat n :: usize) < 5 \<longleftrightarrow> n < 5"
  by (simp add: word_less_nat_alt unat_of_nat_small)

lemma timeout_plus: "unat t + 30 < 2 ^ 64 \<Longrightarrow> (now :: u64) > t + 30 \<longleftrightarrow> unat now > unat t + 30"
  by (simp add: word_less_nat_alt unat_word_ariths)

lemma cb_abs_failure:
  assumes "cb_abs ts cb" "Suc (length ts) < 2 ^ 64"
  shows "\<exists>cb'. record_failure (Some t) cb = Ret cb' \<and> cb_abs (ts @ [t]) cb'"
proof -
  have "(of_nat (Suc (length ts)) :: usize) < 5 \<longleftrightarrow> Suc (length ts) < 5"
    using assms by (intro threshold_of_nat)
  then have "(5 \<le> failures cb + 1) = (5 \<le> Suc (length ts))"
    using assms by (auto simp: cb_abs_def add.commute linorder_not_less [symmetric])
  with assms show ?thesis by (auto simp: cb_defs cb_abs_def Let_def)
qed

lemma cb_run_abs:
  assumes "cb_abs ts cb" "length ts + length evs < 2 ^ 64"
  shows "\<exists>cb'. cb_run cb evs = Ret cb' \<and> cb_abs (trailing_failures evs ts) cb'"
  using assms
proof (induction evs ts arbitrary: cb rule: trailing_failures.induct)
  case (2 evs ts)
  have "cb_abs [] (record_success cb)" by (simp add: cb_abs_def cb_defs)
  with "2" show ?case by simp
next
  case (3 t evs ts)
  then obtain cb' where "record_failure (Some t) cb = Ret cb'" "cb_abs (ts @ [t]) cb'"
    using cb_abs_failure [of ts cb t] by auto
  with "3" show ?case by simp
qed simp

lemma cb_abs_state:
  assumes "cb_abs ts cb" "length ts < 2 ^ 64" "\<forall>t \<in> set ts. unat t + 30 < 2 ^ 64"
  shows "cb_state (Some now) cb = Ret (spec_state now ts)"
proof (cases "length ts < 5")
  case True
  with assms show ?thesis by (simp add: cb_defs cb_abs_def spec_state_def threshold_of_nat)
next
  case False
  then have "last ts \<in> set ts" by (intro last_in_set) auto
  with assms False timeout_plus [of "last ts" now] show ?thesis
    by (simp add: cb_defs cb_abs_def spec_state_def threshold_of_nat)
qed

lemma trailing_failures_subset:
  "t \<in> set (trailing_failures evs ts) \<Longrightarrow> t \<in> set ts \<or> Failure t \<in> set evs"
  by (induction evs ts rule: trailing_failures.induct) auto

lemma length_trailing_failures: "length (trailing_failures evs ts) \<le> length ts + length evs"
  by (induction evs ts rule: trailing_failures.induct) auto

lemma cb_new_abs: "cb_abs [] circuit_breaker_new"
  by (simp add: cb_abs_def cb_defs)

text \<open>
  C10. Refinement: after any history of outcomes, the breaker's two counters answer \<open>state()\<close> exactly
  as the history does: Closed with fewer than five failures since the last success, then Open for
  thirty seconds from the last failure, then HalfOpen.
\<close>

theorem circuit_breaker_refines_history:
  assumes "length evs < 2 ^ 64" "\<forall>t. Failure t \<in> set evs \<longrightarrow> unat t + 30 < 2 ^ 64"
  shows "obind (cb_run circuit_breaker_new evs) (cb_state (Some now))
         = Ret (spec_state now (trailing_failures evs []))"
proof -
  obtain cb where cb: "cb_run circuit_breaker_new evs = Ret cb" "cb_abs (trailing_failures evs []) cb"
    using cb_run_abs [OF cb_new_abs, of evs] assms by auto
  have "length (trailing_failures evs []) < 2 ^ 64"
    using assms length_trailing_failures [of evs "[]"] by simp
  with cb assms show ?thesis
    by (auto intro!: cb_abs_state dest: trailing_failures_subset)
qed

theorem circuit_breaker_refines_history_witness:
  "let evs = [Failure 90, Success, Failure 96, Failure 97, Failure 98, Failure 99, Failure 100]
   in obind (cb_run circuit_breaker_new evs) (cb_state (Some 130)) = Ret Open
    \<and> obind (cb_run circuit_breaker_new evs) (cb_state (Some 131)) = Ret HalfOpen"
  using circuit_breaker_refines_history
      [of "[Failure 90, Success, Failure 96, Failure 97, Failure 98, Failure 99, Failure 100]" 130]
    circuit_breaker_refines_history
      [of "[Failure 90, Success, Failure 96, Failure 97, Failure 98, Failure 99, Failure 100]" 131]
  by (auto simp: spec_state_def)

text \<open>
  Without an intervening success the breaker is never Closed again: from five failures on, only
  \<open>record_success\<close> (and not the passage of time) closes it, and one success closes it at once.
\<close>

lemma circuit_closes_only_on_success:
  "cb_state clk (record_success cb) = Ret Closed \<and>
   (FAILURE_THRESHOLD \<le> failures cb \<longrightarrow> cb_state clk cb \<noteq> Ret Closed)"
  by (auto simp: cb_defs outcome_simps split: if_splits)

text \<open>The clock is consulted, and can end the process, only from the threshold on.\<close>

lemma cb_state_Panic_iff: "cb_state clk cb = Panic \<longleftrightarrow> FAILURE_THRESHOLD \<le> failures cb \<and> clk = None"
  by (cases clk) (auto simp: cb_state_def not_less)

lemma cb_state_clock: "\<exists>st. cb_state (Some now) cb = Ret st"
  by (simp add: cb_state_def)

end
