(* ===== verification/Backend.thy ===== *)
theory Backend
  imports Ewma Circuit_Breaker "HOL-Library.List_Lexorder" "HOL-Library.Char_ord"
begin

text \<open>
  \<open>vortex-core/src/domain/backend.rs\<close> and \<open>ai_gateway.rs\<close>: addresses, an upstream backend with its
  health flag, latency tracker, circuit breaker and AI models, and the metadata of an AI request.
  \<open>String\<close> is a list of bytes (\<open>char\<close>), ordered as Rust orders strings, bytewise.
\<close>

section \<open>Addresses\<close>

datatype IpAddr = V4 u8 u8 u8 u8 | V6 "128 word"

datatype SocketAddr = SocketAddr (addr_ip: IpAddr) (addr_port: u16)

section \<open>Backends\<close>

record Backend =
  backend_id :: u32
  addr :: SocketAddr
  healthy :: bool
  b_ewma :: PeakEwma
  circuit_breaker :: CircuitBreaker
  ai_models :: "string list"

definition backend_new :: "u32 \<Rightarrow> SocketAddr \<Rightarrow> Backend" where
  "backend_new i a =
     \<lparr>backend_id = i, addr = a, healthy = True,
      b_ewma = peak_ewma_new (f64_of_nat 50) f64_half,
      circuit_breaker = circuit_breaker_new, ai_models = []\<rparr>"

definition with_models :: "u32 \<Rightarrow> SocketAddr \<Rightarrow> string list \<Rightarrow> Backend" where
  "with_models i a models =
     \<lparr>backend_id = i, addr = a, healthy = True,
      b_ewma = peak_ewma_new (f64_of_nat 50) f64_half,
      circuit_breaker = circuit_breaker_new, ai_models = sort models\<rparr>"

definition is_healthy :: "Backend \<Rightarrow> bool" where
  "is_healthy b = healthy b"

definition set_healthy :: "bool \<Rightarrow> Backend \<Rightarrow> Backend" where
  "set_healthy h b = b\<lparr>healthy := h\<rparr>"

section \<open>AI gateway metadata\<close>

record AiMetadata =
  model :: string
  estimated_tokens :: u64
  semantic_hash :: "string option"

definition ai_metadata_empty :: AiMetadata where
  "ai_metadata_empty = \<lparr>model = ''unknown'', estimated_tokens = 1, semantic_hash = None\<rparr>"

record ModelFallbackConfig =
  primary_model :: string
  fallback_models :: "string list"

section \<open>The invariant of a backend\<close>

text \<open>The latency average is finite and not negative, and decays with 0.5.\<close>

definition backend_ok :: "Backend \<Rightarrow> bool" where
  "backend_ok b \<longleftrightarrow> nonneg (get_ewma (b_ewma b)) \<and> decay_alpha (b_ewma b) = f64_half"

lemma backend_new_ok [intro!, simp]: "backend_ok (backend_new i a)"
  by (simp add: backend_ok_def backend_new_def ewma_defs nonneg_def view_simps)

lemma with_models_ok [intro!, simp]: "backend_ok (with_models i a ms)"
  by (simp add: backend_ok_def with_models_def ewma_defs nonneg_def view_simps)

lemma backend_ok_frame [simp]:
  "backend_ok (set_healthy h b) = backend_ok b"
  "backend_ok (b\<lparr>circuit_breaker := cb\<rparr>) = backend_ok b"
  "backend_ok (b\<lparr>b_ewma := increment_active (b_ewma b)\<rparr>) = backend_ok b"
  "backend_ok (b\<lparr>b_ewma := drop_guard (b_ewma b)\<rparr>) = backend_ok b"
  by (simp_all add: backend_ok_def set_healthy_def ewma_defs)

lemma backend_ok_observe:
  "backend_ok b \<Longrightarrow> latency rtt \<Longrightarrow> backend_ok (b\<lparr>b_ewma := observe_latency (b_ewma b) rtt\<rparr>)"
  by (simp add: backend_ok_def get_ewma_observe frame_simps next_ewma_bounds)

lemma backend_score_not_nan: "backend_ok b \<Longrightarrow> \<not> is_nan (calculate_score (b_ewma b))"
  using ge_one_mul [OF score_parts(2) score_parts(1)]
  by (simp add: backend_ok_def calculate_score_def ge_one_def)

lemma set_sort_models: "set (ai_models (with_models i a ms)) = set ms"
  by (simp add: with_models_def)

end
