(* ===== verification/Comparators.thy ===== *)
theory Comparators
  imports Float64 "HOL-Library.Multiset"
begin

text \<open>
  Choosing by a comparator, as the standard library does it: \<open>Iterator::min_by\<close> and the stable
  \<open>slice::sort_by\<close>. The locale \<open>total_cmp\<close> is the contract they need of a comparator (a total
  preorder on the elements compared); \<open>keyed_cmp\<close> carries it to a comparator on a key. The contract
  is discharged for the comparator the selectors use, \<open>partial_cmp(..).unwrap_or(Equal)\<close>, on the
  doubles that are not NaN.
\<close>

section \<open>Operations\<close>

definition cmp_or_equal :: "f64 \<Rightarrow> f64 \<Rightarrow> ordering" where
  "cmp_or_equal x y = (case partial_cmp x y of None \<Rightarrow> Equal | Some ord \<Rightarrow> ord)"

fun min_by_from :: "('a \<Rightarrow> 'a \<Rightarrow> ordering) \<Rightarrow> 'a \<Rightarrow> 'a list \<Rightarrow> 'a" where
  "min_by_from cmp a [] = a"
| "min_by_from cmp a (b # bs) = min_by_from cmp (if cmp a b = Greater then b else a) bs"

fun min_by :: "('a \<Rightarrow> 'a \<Rightarrow> ordering) \<Rightarrow> 'a list \<Rightarrow> 'a option" where
  "min_by cmp [] = None"
| "min_by cmp (x # xs) = Some (min_by_from cmp x xs)"

fun insert_by :: "('a \<Rightarrow> 'a \<Rightarrow> ordering) \<Rightarrow> 'a \<Rightarrow> 'a list \<Rightarrow> 'a list" where
  "insert_by cmp x [] = [x]"
| "insert_by cmp x (y # ys) = (if cmp x y = Greater then y # insert_by cmp x ys else x # y # ys)"

text \<open>A stable sort; the lemma \<open>stable_sort_unique\<close> below says there is only one.\<close>

fun sort_by :: "('a \<Rightarrow> 'a \<Rightarrow> ordering) \<Rightarrow> 'a list \<Rightarrow> 'a list" where
  "sort_by cmp [] = []"
| "sort_by cmp (x # xs) = insert_by cmp x (sort_by cmp xs)"

lemma min_by_from_in: "min_by_from cmp a xs \<in> insert a (set xs)"
proof (induction xs arbitrary: a)
  case (Cons b bs)
  from Cons.IH [of "if cmp a b = Greater then b else a"] show ?case by (auto split: if_splits)
qed simp

lemma min_by_in: "min_by cmp xs = Some m \<Longrightarrow> m \<in> set xs"
  using min_by_from_in by (cases xs) fastforce+

lemma min_by_None_iff [simp]: "min_by cmp xs = None \<longleftrightarrow> xs = []"
  by (cases xs) auto

lemma min_by_from_cong:
  "(\<And>x y. x \<in> insert a (set xs) \<Longrightarrow> y \<in> set xs \<Longrightarrow> cmp x y = cmp' x y) \<Longrightarrow>
   min_by_from cmp a xs = min_by_from cmp' a xs"
  by (induction xs arbitrary: a) auto

lemma min_by_cong:
  "(\<And>x y. x \<in> set xs \<Longrightarrow> y \<in> set xs \<Longrightarrow> cmp x y = cmp' x y) \<Longrightarrow> min_by cmp xs = min_by cmp' xs"
  by (cases xs) (auto intro: min_by_from_cong)

lemma mset_insert_by [simp]: "mset (insert_by cmp x ys) = add_mset x (mset ys)"
  by (induction ys) auto

lemma mset_sort_by [simp]: "mset (sort_by cmp xs) = mset xs"
  by (induction xs) auto

lemma set_insert_by [simp]: "set (insert_by cmp x ys) = insert x (set ys)"
  by (metis mset_insert_by set_mset_add_mset_insert set_mset_mset)

lemma set_sort_by [simp]: "set (sort_by cmp xs) = set xs"
  by (metis mset_sort_by set_mset_mset)

text \<open>The first of the least elements of a list.\<close>

definition first_least :: "('a \<Rightarrow> 'a \<Rightarrow> ordering) \<Rightarrow> 'a list \<Rightarrow> 'a \<Rightarrow> bool" where
  "first_least cmp xs m \<longleftrightarrow> (\<exists>ys zs. xs = ys @ m # zs \<and> (\<forall>y \<in> set ys. cmp y m = Greater)
      \<and> (\<forall>z \<in> set zs. cmp m z \<noteq> Greater))"

lemma first_leastI:
  "xs = ys @ m # zs \<Longrightarrow> \<forall>y \<in> set ys. cmp y m = Greater \<Longrightarrow> \<forall>z \<in> set zs. cmp m z \<noteq> Greater \<Longrightarrow>
   first_least cmp xs m"
  unfolding first_least_def by blast

lemma first_leastE:
  assumes "first_least cmp xs m"
  obtains ys zs where "xs = ys @ m # zs" "\<forall>y \<in> set ys. cmp y m = Greater"
    "\<forall>z \<in> set zs. cmp m z \<noteq> Greater"
  using assms unfolding first_least_def by blast

lemma split_later:
  assumes "ys @ m # zs = ys' @ m' # zs'" "length ys < length ys'"
  shows "m \<in> set ys'" "m' \<in> set zs"
  using assms by (auto simp: append_eq_append_conv2 Cons_eq_append_conv append_eq_Cons_conv)

lemma first_least_unique:
  assumes "first_least cmp xs m" "first_least cmp xs m'"
  shows "m = m'"
proof -
  obtain ys zs where d: "xs = ys @ m # zs" "\<forall>y \<in> set ys. cmp y m = Greater"
      "\<forall>z \<in> set zs. cmp m z \<noteq> Greater" using assms(1) by (rule first_leastE)
  obtain ys' zs' where d': "xs = ys' @ m' # zs'" "\<forall>y \<in> set ys'. cmp y m' = Greater"
      "\<forall>z \<in> set zs'. cmp m' z \<noteq> Greater" using assms(2) by (rule first_leastE)
  have "\<not> length ys < length ys'" "\<not> length ys' < length ys"
    using split_later [of ys m zs ys' m' zs'] split_later [of ys' m' zs' ys m zs] d d' by auto
  then have "length ys = length ys'" by simp
  with d(1) d'(1) show ?thesis by simp
qed

section \<open>The contract of a comparator\<close>

locale total_cmp =
  fixes cmp :: "'a \<Rightarrow> 'a \<Rightarrow> ordering" and ok :: "'a \<Rightarrow> bool"
  assumes cmp_refl: "ok x \<Longrightarrow> cmp x x = Equal"
    and cmp_swap: "ok x \<Longrightarrow> ok y \<Longrightarrow> cmp x y = Greater \<longleftrightarrow> cmp y x = Less"
    and cmp_trans: "ok x \<Longrightarrow> ok y \<Longrightarrow> ok z \<Longrightarrow>
      cmp x y \<noteq> Greater \<Longrightarrow> cmp y z \<noteq> Greater \<Longrightarrow> cmp x z \<noteq> Greater"
begin

lemma cmp_total: "ok x \<Longrightarrow> ok y \<Longrightarrow> cmp x y = Greater \<Longrightarrow> cmp y x \<noteq> Greater"
  by (simp add: cmp_swap)

lemma cmp_greater_trans:
  "ok x \<Longrightarrow> ok y \<Longrightarrow> ok z \<Longrightarrow> cmp x y = Greater \<Longrightarrow> cmp y z = Greater \<Longrightarrow> cmp x z = Greater"
  using cmp_trans [of x z y] cmp_total [of y z] by blast

lemma cmp_equal_iff:
  "ok x \<Longrightarrow> ok y \<Longrightarrow> cmp x y = Equal \<longleftrightarrow> cmp x y \<noteq> Greater \<and> cmp y x \<noteq> Greater"
  by (metis cmp_swap ordering.distinct(1,5) ordering.exhaust)

lemma first_least_skip:
  assumes "ok a" "list_all ok (b # bs)" "cmp a b = Greater" "first_least cmp (b # bs) m"
  shows "first_least cmp (a # b # bs) m"
proof -
  obtain ys zs where d: "b # bs = ys @ m # zs" "\<forall>y \<in> set ys. cmp y m = Greater"
      "\<forall>z \<in> set zs. cmp m z \<noteq> Greater"
    using assms(4) by (rule first_leastE)
  have "cmp a m = Greater"
  proof (cases ys)
    case Nil
    with d(1) assms(3) show ?thesis by simp
  next
    case (Cons y ys')
    with d(1,2) have "cmp b m = Greater" by simp
    moreover have "ok m" "ok b" using d(1) assms(2) by (auto simp: list_all_iff Cons_eq_append_conv)
    ultimately show ?thesis using cmp_greater_trans assms(1,3) by blast
  qed
  with d show ?thesis by (intro first_leastI [of _ "a # ys" m zs]) auto
qed

lemma first_least_keep:
  assumes "list_all ok (a # b # bs)" "cmp a b \<noteq> Greater" "first_least cmp (a # bs) m"
  shows "first_least cmp (a # b # bs) m"
proof -
  obtain ys zs where d: "a # bs = ys @ m # zs" "\<forall>y \<in> set ys. cmp y m = Greater"
      "\<forall>z \<in> set zs. cmp m z \<noteq> Greater"
    using assms(3) by (rule first_leastE)
  show ?thesis
  proof (cases ys)
    case Nil
    with d assms(2) show ?thesis by (intro first_leastI [of _ "[]" m "b # bs"]) auto
  next
    case (Cons y ys')
    with d have *: "y = a" "bs = ys' @ m # zs" "cmp a m = Greater" by auto
    then have "cmp b m = Greater"
      using assms(1) cmp_trans [of a b m] assms(2) by (auto simp: list_all_iff)
    with d * Cons show ?thesis by (intro first_leastI [of _ "a # b # ys'" m zs]) auto
  qed
qed

text \<open>\<open>min_by\<close> returns the first of the least elements.\<close>

lemma min_by_from_first_least:
  "list_all ok (a # xs) \<Longrightarrow> first_least cmp (a # xs) (min_by_from cmp a xs)"
proof (induction xs arbitrary: a)
  case Nil
  show ?case by (intro first_leastI [of _ "[]"]) auto
next
  case (Cons b bs)
  then show ?case
    using first_least_skip [of a b bs] first_least_keep [of a b bs] by (cases "cmp a b = Greater") auto
qed

lemma min_by_first_least:
  "list_all ok xs \<Longrightarrow> min_by cmp xs = Some m \<Longrightarrow> first_least cmp xs m"
  using min_by_from_first_least by (cases xs) auto

lemma first_least_le:
  assumes "list_all ok xs" "first_least cmp xs m" "x \<in> set xs"
  shows "cmp m x \<noteq> Greater"
proof -
  obtain ys zs where d: "xs = ys @ m # zs" "\<forall>y \<in> set ys. cmp y m = Greater"
      "\<forall>z \<in> set zs. cmp m z \<noteq> Greater"
    using assms(2) by (rule first_leastE)
  then have "ok m" "ok x" using assms by (auto simp: list_all_iff)
  with d assms(3) cmp_refl [of m] cmp_total [of x m] show ?thesis by auto
qed

lemma min_by_least:
  "list_all ok xs \<Longrightarrow> min_by cmp xs = Some m \<Longrightarrow> x \<in> set xs \<Longrightarrow> cmp m x \<noteq> Greater"
  by (rule first_least_le [OF _ min_by_first_least])

lemma sorted_insert_by:
  assumes "ok x" "list_all ok ys" "sorted_wrt (\<lambda>a b. cmp a b \<noteq> Greater) ys"
  shows "sorted_wrt (\<lambda>a b. cmp a b \<noteq> Greater) (insert_by cmp x ys)"
  using assms
proof (induction ys)
  case (Cons y ys)
  then show ?case
    using cmp_total [of x y] cmp_trans [of x y] by (fastforce simp: list_all_iff)
qed simp

lemma sorted_sort_by:
  "list_all ok xs \<Longrightarrow> sorted_wrt (\<lambda>a b. cmp a b \<noteq> Greater) (sort_by cmp xs)"
  by (induction xs) (auto intro!: sorted_insert_by simp: list_all_iff)

text \<open>The first of the least elements is the head of the sorted list.\<close>

lemma first_least_sort_by:
  assumes "list_all ok xs" "sort_by cmp xs = m # ms"
  shows "first_least cmp xs m"
  using assms
proof (induction xs arbitrary: m ms)
  case (Cons x xs)
  have ok: "ok x" "list_all ok xs" using Cons.prems by auto
  show ?case
  proof (cases "sort_by cmp xs")
    case Nil
    then have "xs = []" by (metis set_sort_by set_empty)
    with Cons.prems show ?thesis by (intro first_leastI [of _ "[]"]) auto
  next
    case (Cons s ss)
    with Cons.IH ok have s: "first_least cmp xs s" by blast
    show ?thesis
    proof (cases "cmp x s = Greater")
      case True
      obtain ys zs where "xs = ys @ s # zs" "\<forall>y \<in> set ys. cmp y s = Greater"
          "\<forall>z \<in> set zs. cmp s z \<noteq> Greater"
        using s by (rule first_leastE)
      with Cons Cons.prems True show ?thesis by (intro first_leastI [of _ "x # ys" m zs]) auto
    next
      case False
      have "s \<in> set xs" using Cons by (metis list.set_intros(1) set_sort_by)
      then have "cmp x z \<noteq> Greater" if "z \<in> set xs" for z
        using that ok first_least_le [OF ok(2) s that] cmp_trans [of x s z] False
        by (auto simp: list_all_iff)
      with False Cons Cons.prems show ?thesis by (intro first_leastI [of _ "[]" m xs]) auto
    qed
  qed
qed simp

lemma min_by_sort_by:
  assumes "list_all ok xs"
  shows "min_by cmp xs = (case sort_by cmp xs of [] \<Rightarrow> None | y # _ \<Rightarrow> Some y)"
proof (cases "min_by cmp xs")
  case None
  then show ?thesis by simp
next
  case (Some m)
  then have "set (sort_by cmp xs) \<noteq> {}" by (auto dest: min_by_in)
  then obtain y ys where y: "sort_by cmp xs = y # ys" by (cases "sort_by cmp xs") auto
  have "m = y"
    by (rule first_least_unique [OF min_by_first_least [OF assms Some] first_least_sort_by [OF assms y]])
  with Some y show ?thesis by simp
qed

lemma cmp_equal_trans:
  "ok a \<Longrightarrow> ok x \<Longrightarrow> ok y \<Longrightarrow> cmp a x = Equal \<Longrightarrow> cmp x y = Greater \<Longrightarrow> cmp a y \<noteq> Equal"
  using cmp_equal_iff [of a x] cmp_equal_iff [of a y] cmp_trans [of x a y] by blast

lemma filter_insert_by:
  assumes "ok a" "ok x" "list_all ok ys"
  shows "filter (\<lambda>y. cmp a y = Equal) (insert_by cmp x ys) = filter (\<lambda>y. cmp a y = Equal) (x # ys)"
  using assms
proof (induction ys)
  case (Cons y ys)
  then show ?case using cmp_equal_trans [of a x y] by auto
qed simp

text \<open>Stability: elements that compare equal keep their order.\<close>

lemma stable_sort_by:
  assumes "ok a" "list_all ok xs"
  shows "filter (\<lambda>y. cmp a y = Equal) (sort_by cmp xs) = filter (\<lambda>y. cmp a y = Equal) xs"
  using assms
proof (induction xs)
  case (Cons x xs)
  then have "list_all ok (sort_by cmp xs)" by (simp add: list_all_iff)
  with Cons show ?case by (simp add: filter_insert_by)
qed simp

lemma stable_sort_unique:
  assumes "list_all ok zs" "mset zs = mset ss"
    and "sorted_wrt (\<lambda>a b. cmp a b \<noteq> Greater) zs" "sorted_wrt (\<lambda>a b. cmp a b \<noteq> Greater) ss"
    and "\<And>a. ok a \<Longrightarrow> filter (\<lambda>y. cmp a y = Equal) zs = filter (\<lambda>y. cmp a y = Equal) ss"
  shows "zs = ss"
  using assms
proof (induction zs arbitrary: ss)
  case (Cons z zs)
  then obtain s ss' where ss: "ss = s # ss'" by (cases ss) auto
  have sets: "set (z # zs) = set ss" using Cons.prems(2) by (metis set_mset_mset)
  with Cons.prems(1) ss have ok: "ok z" "ok s" by (auto simp: list_all_iff)
  have "s = z \<or> s \<in> set zs" "z = s \<or> z \<in> set ss'" using sets ss by auto
  then have "cmp z s \<noteq> Greater" "cmp s z \<noteq> Greater"
    using ss Cons.prems(3,4) cmp_refl [OF ok(1)] by auto
  then have "cmp z s = Equal" using ok by (simp add: cmp_equal_iff)
  with Cons.prems(5) [OF ok(1)] ss cmp_refl [OF ok(1)] have "z = s" by simp
  moreover have "zs = ss'"
  proof (rule Cons.IH)
    fix a assume "ok a"
    then show "filter (\<lambda>y. cmp a y = Equal) zs = filter (\<lambda>y. cmp a y = Equal) ss'"
      using Cons.prems(5) [of a] ss \<open>z = s\<close> by (auto split: if_splits)
  qed (use Cons.prems ss \<open>z = s\<close> in auto)
  ultimately show ?case by (simp add: ss)
qed simp

end

text \<open>A comparator on a key inherits the contract.\<close>

locale keyed_cmp = total_cmp cmp ok for cmp :: "'k \<Rightarrow> 'k \<Rightarrow> ordering" and ok +
  fixes key :: "'b \<Rightarrow> 'k"

sublocale keyed_cmp \<subseteq> by_key: total_cmp "\<lambda>a b. cmp (key a) (key b)" "\<lambda>a. ok (key a)"
  by unfold_locales (simp_all add: cmp_refl cmp_swap, metis cmp_swap cmp_trans)

interpretation f64_cmp: total_cmp cmp_or_equal "\<lambda>x. \<not> is_nan x"
  by unfold_locales (auto simp: cmp_or_equal_def partial_cmp_def split: if_splits)

lemma cmp_or_equal_less_iff:
  "\<not> is_nan x \<Longrightarrow> \<not> is_nan y \<Longrightarrow> cmp_or_equal x y \<noteq> Greater \<longleftrightarrow> fval x \<le> fval y"
  by (simp add: cmp_or_equal_def partial_cmp_def)

end
