(* ===== verification/Routing.thy ===== *)
theory Routing
  imports Backend Comparators
begin

text \<open>
  \<open>vortex-core/src/domain/routing.rs\<close> and \<open>load_balancer/selector.rs\<close>: the routing table and the
  selection of a backend. An \<open>Arc<Backend>\<close> is an index into a heap of backends, so that requests,
  the health checker and the table share and mutate the same backend, and a request keeps the one
  it holds when the table is swapped. A selection reads one snapshot of the table, the clock and
  the scores.
\<close>

section \<open>State and operations\<close>

type_synonym heap = "Backend list"
type_synonym bref = nat

record RoutingTable =
  backends :: "bref list"

definition routing_table_new :: "bref list \<Rightarrow> RoutingTable" where
  "routing_table_new initial_backends = \<lparr>backends = initial_backends\<rparr>"

definition update_backends :: "bref list \<Rightarrow> RoutingTable \<Rightarrow> RoutingTable" where
  "update_backends new_backends t = t\<lparr>backends := new_backends\<rparr>"

definition snapshot :: "RoutingTable \<Rightarrow> bref list" where
  "snapshot t = backends t"

text \<open>\<open>Arc::new\<close> of some backends, and a mutation through a shared reference.\<close>

definition alloc :: "Backend list \<Rightarrow> heap \<Rightarrow> bref list \<times> heap" where
  "alloc bs h = ([length h ..< length h + length bs], h @ bs)"

definition modify :: "bref \<Rightarrow> (Backend \<Rightarrow> Backend) \<Rightarrow> heap \<Rightarrow> heap" where
  "modify r f h = h[r := f (h ! r)]"

definition score :: "heap \<Rightarrow> bref \<Rightarrow> f64" where
  "score h r = calculate_score (b_ewma (h ! r))"

definition score_cmp :: "heap \<Rightarrow> bref \<Rightarrow> bref \<Rightarrow> ordering" where
  "score_cmp h = (\<lambda>a b. cmp_or_equal (score h a) (score h b))"

definition get_best_backend :: "heap \<Rightarrow> RoutingTable \<Rightarrow> bref option" where
  "get_best_backend h t = min_by (score_cmp h) (filter (\<lambda>b. is_healthy (h ! b)) (backends t))"

definition serving :: "heap \<Rightarrow> string \<Rightarrow> bref list \<Rightarrow> bref list" where
  "serving h m bs = filter (\<lambda>b. is_healthy (h ! b) \<and> m \<in> set (ai_models (h ! b))) bs"

fun try_fallbacks :: "heap \<Rightarrow> bref list \<Rightarrow> string list \<Rightarrow> bref option" where
  "try_fallbacks h bs [] = None"
| "try_fallbacks h bs (m # ms) =
     (case min_by (score_cmp h) (serving h m bs) of
        Some b \<Rightarrow> Some b
      | None \<Rightarrow> try_fallbacks h bs ms)"

definition get_ai_backend :: "heap \<Rightarrow> AiMetadata \<Rightarrow> ModelFallbackConfig option \<Rightarrow> RoutingTable \<Rightarrow> bref option" where
  "get_ai_backend h metadata fallback_config t =
     (let guard = backends t; best_primary = min_by (score_cmp h) (serving h (model metadata) guard)
      in if best_primary = None
         then (case fallback_config of
                 Some fallback \<Rightarrow> try_fallbacks h guard (fallback_models fallback)
               | None \<Rightarrow> best_primary)
         else best_primary)"

text \<open>The filter of both selectors: healthy, and the circuit not Open; \<open>&&\<close> skips the second test.\<close>

definition available :: "clock \<Rightarrow> heap \<Rightarrow> bref \<Rightarrow> bool outcome" where
  "available clk h b =
     (if is_healthy (h ! b)
      then obind (cb_state clk (circuit_breaker (h ! b))) (\<lambda>st. Ret (st \<noteq> Open))
      else Ret False)"

definition select_best_backend :: "clock \<Rightarrow> heap \<Rightarrow> RoutingTable \<Rightarrow> bref option outcome" where
  "select_best_backend clk h t =
     obind (ofilter (available clk h) (snapshot t)) (\<lambda>bs. Ret (min_by (score_cmp h) bs))"

definition select_healthy_backends :: "clock \<Rightarrow> heap \<Rightarrow> RoutingTable \<Rightarrow> bref list outcome" where
  "select_healthy_backends clk h t =
     obind (ofilter (available clk h) (snapshot t)) (\<lambda>bs. Ret (sort_by (score_cmp h) bs))"

section \<open>Invariant\<close>

definition routing_ok :: "heap \<Rightarrow> RoutingTable \<Rightarrow> bool" where
  "routing_ok h t \<longleftrightarrow> list_all backend_ok h \<and> list_all (\<lambda>r. r < length h) (backends t)"

lemma routing_ok_modify:
  "routing_ok h t \<Longrightarrow> (backend_ok (h ! r) \<Longrightarrow> backend_ok (f (h ! r))) \<Longrightarrow> routing_ok (modify r f h) t"
  by (cases "r < length h") (auto simp: routing_ok_def modify_def list_all_length nth_list_update)

lemma routing_ok_alloc:
  "routing_ok h t \<Longrightarrow> list_all backend_ok bs \<Longrightarrow> alloc bs h = (rs, h') \<Longrightarrow> routing_ok h' (update_backends rs t)"
  by (auto simp: routing_ok_def alloc_def update_backends_def list_all_iff)

lemma alloc_keeps:
  "alloc bs h = (rs, h') \<Longrightarrow> r < length h \<Longrightarrow> h' ! r = h ! r"
  by (auto simp: alloc_def nth_append)

lemma alloc_fresh:
  "alloc bs h = (rs, h') \<Longrightarrow> map (nth h') rs = bs \<and> (\<forall>r \<in> set rs. length h \<le> r)"
  by (auto simp: alloc_def intro!: nth_equalityI)

section \<open>Selection\<close>

definition admitted :: "u64 \<Rightarrow> heap \<Rightarrow> bref \<Rightarrow> bool" where
  "admitted now h b \<longleftrightarrow> is_healthy (h ! b) \<and> cb_state (Some now) (circuit_breaker (h ! b)) \<noteq> Ret Open"

interpretation score_order: keyed_cmp cmp_or_equal "\<lambda>x. \<not> is_nan x" "score h" for h
  by unfold_locales

lemma available_Some: "available (Some now) h b = Ret (admitted now h b)"
  using cb_state_clock [of now "circuit_breaker (h ! b)"] by (auto simp: available_def admitted_def)

lemma filter_available:
  "ofilter (available (Some now) h) bs = Ret (filter (admitted now h) bs)"
  by (rule ofilter_Ret) (rule available_Some)

lemma scores_comparable: "routing_ok h t \<Longrightarrow> list_all (\<lambda>r. \<not> is_nan (score h r)) (filter p (backends t))"
  by (auto simp: routing_ok_def list_all_iff score_def intro!: backend_score_not_nan)

lemmas selection_simps = select_best_backend_def select_healthy_backends_def filter_available snapshot_def

text \<open>The minimum over some backends of the table: the first of least score.\<close>

lemma min_by_score:
  assumes "routing_ok h t" "min_by (score_cmp h) (filter p (backends t)) = Some b"
  shows "first_least (score_cmp h) (filter p (backends t)) b"
    and "list_all (\<lambda>c. fval (score h b) \<le> fval (score h c)) (filter p (backends t))"
proof -
  note ok = scores_comparable [OF assms(1)]
  show "first_least (score_cmp h) (filter p (backends t)) b"
    using score_order.by_key.min_by_first_least [OF ok] assms(2) by (simp add: score_cmp_def)
  have "fval (score h b) \<le> fval (score h c)" if "c \<in> set (filter p (backends t))" for c
    using score_order.by_key.min_by_least [OF ok, of _ b c] assms(2) that ok min_by_in [OF assms(2)]
      cmp_or_equal_less_iff [of "score h b" "score h c"]
    by (simp add: score_cmp_def list_all_iff)
  then show "list_all (\<lambda>c. fval (score h b) \<le> fval (score h c)) (filter p (backends t))" by (simp add: list_all_iff)
qed

text \<open>Two backends at 200 ms and 35 ms, as in the repository's selector test.\<close>

definition two_backends :: heap where
  "two_backends =
     [(backend_new 1 (SocketAddr (V4 127 0 0 1) 8080))\<lparr>b_ewma := observe_latency (peak_ewma_new (f64_of_nat 50) f64_half) (f64_of_nat 200)\<rparr>,
      (backend_new 2 (SocketAddr (V4 127 0 0 1) 8081))\<lparr>b_ewma := observe_latency (peak_ewma_new (f64_of_nat 50) f64_half) (f64_of_nat 20)\<rparr>]"

lemma two_backends_ok: "routing_ok two_backends (routing_table_new [0, 1])"
  using backend_ok_observe [OF backend_new_ok latency_of_nat, of 200 1]
    backend_ok_observe [OF backend_new_ok latency_of_nat, of 20 2]
  by (simp add: routing_ok_def two_backends_def routing_table_new_def) (simp add: backend_new_def)

lemma two_backends_scores:
  "score two_backends 0 = f64_of_nat 201" "score two_backends 1 = f64_of_nat 36"
proof -
  have "next_ewma f64_half (f64_of_nat 50) (f64_of_nat 200) = f64_of_nat 200"
    "next_ewma f64_half (f64_of_nat 50) (f64_of_nat 20) = f64_of_nat 35"
    using next_ewma_nat [of 25 100] next_ewma_nat [of 25 10] by simp_all
  then have "get_ewma (b_ewma (two_backends ! 0)) = f64_of_nat 200"
    "get_ewma (b_ewma (two_backends ! 1)) = f64_of_nat 35"
    by (simp_all add: two_backends_def get_ewma_observe_new)
  then show "score two_backends 0 = f64_of_nat 201" "score two_backends 1 = f64_of_nat 36"
    using score_nat [of "b_ewma (two_backends ! 0)" 200 0] score_nat [of "b_ewma (two_backends ! 1)" 35 0]
    by (simp_all add: score_def two_backends_def frame_simps) (simp_all add: peak_ewma_new_def)
qed

lemma cmp_of_nat:
  "m \<le> 2 ^ 53 \<Longrightarrow> n \<le> 2 ^ 53 \<Longrightarrow>
   cmp_or_equal (f64_of_nat m) (f64_of_nat n) = (if m < n then Less else if m = n then Equal else Greater)"
  by (simp add: cmp_or_equal_def partial_cmp_def fval_of_nat)

text \<open>
  C11. \<open>select_best_backend\<close> is optimal: with the clock after the epoch it never panics; it returns
  nothing exactly when no backend of the table is healthy with its circuit not Open; and the
  backend it returns is such a backend, of least score among them, the first in table order among
  equals.
\<close>

theorem select_best_backend_optimal:
  assumes "routing_ok h t"
  shows "case select_best_backend (Some now) h t of
      Panic \<Rightarrow> False
    | Ret None \<Rightarrow> filter (admitted now h) (backends t) = []
    | Ret (Some b) \<Rightarrow>
        first_least (score_cmp h) (filter (admitted now h) (backends t)) b \<and>
        list_all (\<lambda>c. fval (score h b) \<le> fval (score h c)) (filter (admitted now h) (backends t))"
proof -
  let ?bs = "filter (admitted now h) (backends t)"
  show ?thesis
  proof (cases "min_by (score_cmp h) ?bs")
    case None
    then show ?thesis by (simp add: selection_simps)
  next
    case (Some b)
    with min_by_score [OF assms Some] show ?thesis by (simp add: selection_simps)
  qed
qed

theorem select_best_backend_optimal_witness:
  "routing_ok two_backends (routing_table_new [0, 1]) \<and>
   select_best_backend (Some 1000) two_backends (routing_table_new [0, 1]) = Ret (Some 1) \<and>
   first_least (score_cmp two_backends) (filter (admitted 1000 two_backends) [0, 1]) 1"
proof -
  have "filter (admitted 1000 two_backends) [0, 1] = [0, 1]"
    by (simp add: admitted_def two_backends_def backend_new_def is_healthy_def cb_defs)
  then have "ofilter (available (Some 1000) two_backends) [0, 1] = Ret [0, 1]"
    using filter_available [of 1000 two_backends "[0, 1]"] by (simp only:)
  then have "select_best_backend (Some 1000) two_backends (routing_table_new [0, 1]) = Ret (Some 1)"
    using two_backends_scores
    by (simp add: select_best_backend_def snapshot_def routing_table_new_def score_cmp_def cmp_of_nat
        del: ofilter.simps)
  with select_best_backend_optimal [OF two_backends_ok, of 1000] two_backends_ok show ?thesis
    by (simp add: routing_table_new_def)
qed

text \<open>
  C25. \<open>select_healthy_backends\<close> returns exactly the admitted backends of the table, each as often as
  the table lists it, in order of score, and keeps table order among equal scores.
\<close>

theorem select_healthy_backends_sorted:
  assumes "routing_ok h t"
  shows "\<exists>bs. select_healthy_backends (Some now) h t = Ret bs
      \<and> mset bs = mset (filter (admitted now h) (backends t))
      \<and> sorted_wrt (\<lambda>b c. fval (score h b) \<le> fval (score h c)) bs
      \<and> (\<forall>v. filter (\<lambda>b. fval (score h b) = v) bs
             = filter (\<lambda>b. fval (score h b) = v) (filter (admitted now h) (backends t)))"
proof -
  let ?bs = "filter (admitted now h) (backends t)" and ?ss = "sort_by (score_cmp h) (filter (admitted now h) (backends t))"
  note ok = scores_comparable [OF assms]
  have okss: "\<not> is_nan (score h b)" if "b \<in> set ?ss" for b using that ok by (simp add: list_all_iff)
  have "sorted_wrt (\<lambda>b c. score_cmp h b c \<noteq> Greater) ?ss"
    using score_order.by_key.sorted_sort_by [OF ok] by (simp add: score_cmp_def)
  then have "sorted_wrt (\<lambda>b c. fval (score h b) \<le> fval (score h c)) ?ss"
    by (rule sorted_wrt_mono_rel [rotated]) (use okss in \<open>simp add: score_cmp_def cmp_or_equal_less_iff\<close>)
  moreover have "filter (\<lambda>b. fval (score h b) = v) ?ss = filter (\<lambda>b. fval (score h b) = v) ?bs" for v
  proof (cases "\<exists>a \<in> set ?bs. fval (score h a) = v")
    case True
    then obtain a where a: "a \<in> set ?bs" "fval (score h a) = v" by blast
    then have nan: "\<not> is_nan (score h a)" using ok by (simp add: list_all_iff)
    have eq: "cmp_or_equal (score h a) (score h b) = Equal \<longleftrightarrow> fval (score h b) = v" if "b \<in> set ?bs" for b
      using a nan that ok by (auto simp: cmp_or_equal_def partial_cmp_def list_all_iff)
    have "filter (\<lambda>b. cmp_or_equal (score h a) (score h b) = Equal) ?ss
        = filter (\<lambda>b. cmp_or_equal (score h a) (score h b) = Equal) ?bs"
      using score_order.by_key.stable_sort_by [OF nan ok] by (simp add: score_cmp_def)
    moreover have cong: "filter (\<lambda>b. cmp_or_equal (score h a) (score h b) = Equal) xs
        = filter (\<lambda>b. fval (score h b) = v) xs" if "set xs = set ?bs" for xs
      using eq that by (intro filter_cong) auto
    ultimately show ?thesis by (simp only: cong [OF refl] cong [OF set_sort_by])
  next
    case False
    then have "filter (\<lambda>b. fval (score h b) = v) ?ss = []" "filter (\<lambda>b. fval (score h b) = v) ?bs = []"
      by (auto simp: filter_empty_conv)
    then show ?thesis by simp
  qed
  ultimately show ?thesis by (simp add: selection_simps)
qed

theorem select_healthy_backends_sorted_witness:
  "\<exists>bs. select_healthy_backends (Some 1000) two_backends (routing_table_new [0, 1]) = Ret bs
     \<and> sorted_wrt (\<lambda>b c. fval (score two_backends b) \<le> fval (score two_backends c)) bs"
  using select_healthy_backends_sorted [OF two_backends_ok, of 1000] by blast

text \<open>
  The two selectors agree: the best backend is the head of the sorted list.
\<close>

lemma select_best_is_head_of_sorted:
  assumes "routing_ok h t"
  shows "select_best_backend (Some now) h t
       = obind (select_healthy_backends (Some now) h t)
           (\<lambda>bs. Ret (case bs of [] \<Rightarrow> None | b # _ \<Rightarrow> Some b))"
  using score_order.by_key.min_by_sort_by [OF scores_comparable [OF assms]]
  by (simp add: selection_simps score_cmp_def)

section \<open>AI routing\<close>

lemma try_fallbacks_find:
  "try_fallbacks h bs ms =
     (case List.find (\<lambda>m. serving h m bs \<noteq> []) ms of
        None \<Rightarrow> None | Some m \<Rightarrow> min_by (score_cmp h) (serving h m bs))"
proof (induction ms)
  case (Cons m ms)
  then show ?case by (cases "min_by (score_cmp h) (serving h m bs)") auto
qed simp

lemma find_split: "List.find P xs = Some x \<Longrightarrow> \<exists>ys zs. xs = ys @ x # zs \<and> P x \<and> (\<forall>y \<in> set ys. \<not> P y)"
proof (induction xs)
  case (Cons a xs)
  show ?case
  proof (cases "P a")
    case True
    with Cons.prems have "a # xs = [] @ x # xs \<and> P x" by simp
    then show ?thesis by fastforce
  next
    case False
    with Cons obtain ys zs where "xs = ys @ x # zs" "P x" "\<forall>y \<in> set ys. \<not> P y" by auto
    with False have "a # xs = (a # ys) @ x # zs \<and> P x \<and> (\<forall>y \<in> set (a # ys). \<not> P y)" by simp
    then show ?thesis by blast
  qed
qed simp

lemma get_ai_backend_find:
  "get_ai_backend h md fb t =
     (case List.find (\<lambda>m. serving h m (backends t) \<noteq> [])
             (model md # (case fb of None \<Rightarrow> [] | Some f \<Rightarrow> fallback_models f)) of
        None \<Rightarrow> None
      | Some m \<Rightarrow> min_by (score_cmp h) (serving h m (backends t)))"
  by (auto simp: get_ai_backend_def Let_def try_fallbacks_find split: option.splits)

text \<open>
  C24. \<open>get_ai_backend\<close> goes through the requested model and then its fallbacks in order. It returns nothing exactly
  when no healthy backend of the table has any of them; otherwise it returns, for the first of these models that a
  healthy backend has, the first in table order of the healthy backends with that model that have the least
  score. So the fallbacks play no part while any healthy backend has the requested model, however loaded it is.
\<close>

theorem get_ai_backend_first_served_model:
  assumes "routing_ok h t" "models = model md # (case fb of None \<Rightarrow> [] | Some f \<Rightarrow> fallback_models f)"
    and "\<And>m. served m = filter (\<lambda>b. healthy (h ! b) \<and> m \<in> set (ai_models (h ! b))) (backends t)"
  shows "case get_ai_backend h md fb t of
      None \<Rightarrow> \<forall>m \<in> set models. served m = []
    | Some b \<Rightarrow> \<exists>earlier m later. models = earlier @ m # later \<and> (\<forall>m' \<in> set earlier. served m' = [])
        \<and> first_least (score_cmp h) (served m) b \<and> list_all (\<lambda>c. fval (score h b) \<le> fval (score h c)) (served m)"
proof -
  have served: "serving h m (backends t) = served m" for m by (simp add: assms(3) serving_def is_healthy_def)
  note find = get_ai_backend_find [of h md fb t, folded assms(2), unfolded served]
  show ?thesis
  proof (cases "List.find (\<lambda>m. served m \<noteq> []) models")
    case None
    then have "get_ai_backend h md fb t = None" "\<forall>m \<in> set models. served m = []" using find by (simp, auto simp: find_None_iff)
    then show ?thesis by simp
  next
    case (Some m)
    then obtain earlier later where m: "models = earlier @ m # later" "served m \<noteq> []" "\<forall>m' \<in> set earlier. served m' = []"
      using find_split [OF Some] by blast
    then obtain b where b: "min_by (score_cmp h) (served m) = Some b" by (cases "min_by (score_cmp h) (served m)") auto
    from min_by_score [OF assms(1) b [unfolded assms(3)], folded assms(3)] m(1,3) show ?thesis using find Some b by auto
  qed
qed

definition ai_backends :: heap where
  "ai_backends = map (\<lambda>b. b\<lparr>ai_models := [''gpt-4'']\<rparr>) two_backends"

lemma ai_backends_ok: "routing_ok ai_backends (routing_table_new [0, 1])"
  using two_backends_ok by (auto simp: routing_ok_def ai_backends_def list_all_iff routing_table_new_def backend_ok_def)

theorem get_ai_backend_first_served_model_witness:
  "\<exists>b. get_ai_backend ai_backends \<lparr>model = ''llama'', estimated_tokens = 1, semantic_hash = None\<rparr>
       (Some \<lparr>primary_model = ''llama'', fallback_models = [''gpt-4'']\<rparr>) (routing_table_new [0, 1]) = Some b
     \<and> fval (score ai_backends b) \<le> fval (score ai_backends 1)"
proof -
  let ?md = "\<lparr>model = ''llama'', estimated_tokens = 1, semantic_hash = None\<rparr>" and ?fb = "\<lparr>primary_model = ''llama'', fallback_models = [''gpt-4'']\<rparr>"
  let ?served = "\<lambda>m. filter (\<lambda>b. healthy (ai_backends ! b) \<and> m \<in> set (ai_models (ai_backends ! b))) (backends (routing_table_new [0, 1]))"
  have s: "?served m = (if m = ''gpt-4'' then [0, 1] else [])" for m
    by (simp add: ai_backends_def two_backends_def backend_new_def routing_table_new_def)
  note p = get_ai_backend_first_served_model [OF ai_backends_ok refl, of ?served ?md "Some ?fb", unfolded s]
  then show ?thesis by (auto simp: first_least_def split: option.splits if_splits)
qed

text \<open>
  C26. Neither \<open>get_best_backend\<close> nor \<open>get_ai_backend\<close> consults the circuit breaker: opening any
  breakers leaves their choice unchanged, so both can return a backend whose circuit is Open.
\<close>

theorem table_selectors_ignore_circuit_breaker:
  assumes "routing_ok h t"
  shows "get_best_backend (map (\<lambda>b. b\<lparr>circuit_breaker := breaker b\<rparr>) h) t = get_best_backend h t
    \<and> get_ai_backend (map (\<lambda>b. b\<lparr>circuit_breaker := breaker b\<rparr>) h) md fb t = get_ai_backend h md fb t"
proof -
  let ?h = "map (\<lambda>b. b\<lparr>circuit_breaker := breaker b\<rparr>) h"
  have r: "r < length h" if "r \<in> set (backends t)" for r
    using assms that by (simp add: routing_ok_def list_all_iff)
  then have sc: "score_cmp ?h a b = score_cmp h a b"
    if "a \<in> set (backends t)" "b \<in> set (backends t)" for a b
    using that by (simp add: score_cmp_def score_def)
  have sv: "serving ?h m (backends t) = serving h m (backends t)" for m
    using r by (auto simp: serving_def is_healthy_def intro!: filter_cong)
  have "filter (\<lambda>b. is_healthy (?h ! b)) (backends t) = filter (\<lambda>b. is_healthy (h ! b)) (backends t)"
    using r by (auto simp: is_healthy_def intro!: filter_cong)
  then have "get_best_backend ?h t = get_best_backend h t"
    using sc by (auto simp: get_best_backend_def intro!: min_by_cong)
  moreover have mb: "min_by (score_cmp ?h) (serving h m (backends t))
      = min_by (score_cmp h) (serving h m (backends t))" for m
    using sc by (auto simp: serving_def intro!: min_by_cong)
  moreover have "try_fallbacks ?h (backends t) ms = try_fallbacks h (backends t) ms" for ms
    by (induction ms) (simp_all add: sv mb split: option.split)
  ultimately show ?thesis by (simp add: get_ai_backend_def sv Let_def split: option.split)
qed

text \<open>Both circuits open: the selector of the load balancer has no backend to offer, that of the table has one.\<close>

theorem table_selectors_ignore_circuit_breaker_witness:
  "get_best_backend (map (\<lambda>b. b\<lparr>circuit_breaker := \<lparr>failures = 5, last_failure_time = 1000\<rparr>\<rparr>) two_backends) (routing_table_new [0, 1]) = Some 1
   \<and> select_best_backend (Some 1000) (map (\<lambda>b. b\<lparr>circuit_breaker := \<lparr>failures = 5, last_failure_time = 1000\<rparr>\<rparr>) two_backends)
       (routing_table_new [0, 1]) = Ret None"
proof
  have "filter (\<lambda>b. is_healthy (two_backends ! b)) [0, 1] = [0, 1]" by (simp add: two_backends_def backend_new_def is_healthy_def)
  then have "get_best_backend two_backends (routing_table_new [0, 1]) = Some 1"
    by (simp add: get_best_backend_def routing_table_new_def score_cmp_def two_backends_scores [unfolded One_nat_def] cmp_of_nat del: filter.simps)
  then show "get_best_backend (map (\<lambda>b. b\<lparr>circuit_breaker := \<lparr>failures = 5, last_failure_time = 1000\<rparr>\<rparr>) two_backends) (routing_table_new [0, 1]) = Some 1"
    using table_selectors_ignore_circuit_breaker [OF two_backends_ok, of "\<lambda>_. \<lparr>failures = 5, last_failure_time = 1000\<rparr>"] by simp
  show "select_best_backend (Some 1000) (map (\<lambda>b. b\<lparr>circuit_breaker := \<lparr>failures = 5, last_failure_time = 1000\<rparr>\<rparr>) two_backends)
      (routing_table_new [0, 1]) = Ret None"
    by (simp add: select_best_backend_def snapshot_def routing_table_new_def available_def two_backends_def backend_new_def is_healthy_def cb_defs)
qed

end
