(* ===== verification/Text.thy ===== *)
theory Text
  imports Prelude
begin

text \<open>
  What the code uses of Rust's string library: decimal printing of unsigned integers
  (\<open>to_string\<close>), \<open>str::parse::<u64>\<close>, \<open>str::split\<close> on a character, ASCII \<open>to_lowercase\<close> and the
  UTF-8 validation of \<open>std::str::from_utf8\<close>. Strings are lists of bytes; \<open>len\<close> counts bytes.
\<close>

section \<open>Decimal numbers\<close>

definition digit :: "nat \<Rightarrow> char" where
  "digit d = char_of (48 + d)"

fun show_nat :: "nat \<Rightarrow> string" where
  "show_nat n = (if n < 10 then [digit n] else show_nat (n div 10) @ [digit (n mod 10)])"

declare show_nat.simps [simp del]

definition to_digit :: "char \<Rightarrow> nat option" where
  "to_digit c = (let n = of_char c :: nat in if 48 \<le> n \<and> n \<le> 57 then Some (n - 48) else None)"

fun parse_digits :: "nat \<Rightarrow> string \<Rightarrow> nat option" where
  "parse_digits acc [] = Some acc"
| "parse_digits acc (c # cs) =
     (case to_digit c of
        None \<Rightarrow> None
      | Some d \<Rightarrow> (let acc' = acc * 10 + d in if acc' < 2 ^ 64 then parse_digits acc' cs else None))"

definition strip_plus :: "string \<Rightarrow> string" where
  "strip_plus s = (case s of [] \<Rightarrow> [] | c # cs \<Rightarrow> if c = CHR ''+'' then cs else s)"

definition parse_u64 :: "string \<Rightarrow> u64 option" where
  "parse_u64 s =
     (let ds = strip_plus s in if ds = [] then None else map_option of_nat (parse_digits 0 ds))"

lemma of_char_digit [simp]: "d < 10 \<Longrightarrow> of_char (digit d) = (48 + d :: nat)"
  by (simp add: digit_def)

lemma to_digit_digit [simp]: "d < 10 \<Longrightarrow> to_digit (digit d) = Some d"
  by (simp add: to_digit_def)

lemma show_nat_nonempty [simp]: "show_nat n \<noteq> []"
  by (subst show_nat.simps) simp

lemma parse_digits_append:
  "parse_digits acc (xs @ ys) = Option.bind (parse_digits acc xs) (\<lambda>acc'. parse_digits acc' ys)"
  by (induction acc xs rule: parse_digits.induct) (auto simp: Let_def split: option.splits)

lemma parse_digits_show_nat: "n < 2 ^ 64 \<Longrightarrow> parse_digits 0 (show_nat n) = Some n"
proof (induction n rule: show_nat.induct)
  case (1 n)
  show ?case
  proof (cases "n < 10")
    case True
    then show ?thesis by (subst show_nat.simps) simp
  next
    case False
    with "1" have "parse_digits 0 (show_nat (n div 10)) = Some (n div 10)" by auto
    then show ?thesis
      using False "1.prems" by (subst show_nat.simps) (simp add: parse_digits_append)
  qed
qed

lemma show_nat_digits: "c \<in> set (show_nat n) \<Longrightarrow> \<exists>d < 10. c = digit d"
proof (induction n rule: show_nat.induct)
  case (1 n)
  then show ?case
    by (subst (asm) show_nat.simps) (auto split: if_splits intro: exI [of _ "n mod 10"])
qed

lemma strip_plus_show_nat: "strip_plus (show_nat n) = show_nat n"
proof -
  obtain c cs where c: "show_nat n = c # cs" by (cases "show_nat n") auto
  then obtain d where d: "d < 10" "c = digit d" using show_nat_digits [of c n] by auto
  then have "(of_char c :: nat) \<noteq> of_char CHR ''+''" by simp
  then have "c \<noteq> CHR ''+''" by auto
  with c show ?thesis by (simp add: strip_plus_def)
qed

lemma parse_u64_show: "n < 2 ^ 64 \<Longrightarrow> parse_u64 (show_nat n) = Some (of_nat n)"
  using parse_digits_show_nat [of n] show_nat_nonempty [of n]
  by (simp add: parse_u64_def strip_plus_show_nat)

lemma parse_u64_show_u64: "parse_u64 (show_nat (unat w)) = Some w"
  using unat_less_pow [of w] by (simp add: parse_u64_show)

lemma show_nat_inject: "m < 2 ^ 64 \<Longrightarrow> n < 2 ^ 64 \<Longrightarrow> show_nat m = show_nat n \<Longrightarrow> m = n"
  by (metis option.inject parse_digits_show_nat)

section \<open>Splitting and joining\<close>

text \<open>\<open>str::split\<close> on a character: one more piece than there are separators, empty pieces kept.\<close>

fun split_on :: "char \<Rightarrow> string \<Rightarrow> string list" where
  "split_on c [] = [[]]"
| "split_on c (x # xs) =
     (if x = c then [] # split_on c xs
      else (case split_on c xs of [] \<Rightarrow> [[x]] | p # ps \<Rightarrow> (x # p) # ps))"

fun join_with :: "char \<Rightarrow> string list \<Rightarrow> string" where
  "join_with c [] = []"
| "join_with c [p] = p"
| "join_with c (p # q # ps) = p @ c # join_with c (q # ps)"

lemma split_on_nonempty [simp]: "split_on c xs \<noteq> []"
  by (cases xs) (auto split: list.splits)

lemma join_with_cons_head: "ps \<noteq> [] \<Longrightarrow> join_with c ((x # p) # ps) = x # join_with c (p # ps)"
  by (cases ps) auto

lemma join_split_on: "join_with c (split_on c xs) = xs"
proof (induction xs)
  case (Cons x xs)
  obtain p ps where p: "split_on c xs = p # ps" by (cases "split_on c xs") auto
  with Cons show ?case by (cases ps) auto
qed simp

lemma split_on_no_sep: "c \<notin> set xs \<Longrightarrow> split_on c xs = [xs]"
  by (induction xs) auto

lemma split_on_append_sep: "c \<notin> set xs \<Longrightarrow> split_on c (xs @ c # ys) = xs # split_on c ys"
  by (induction xs) auto

lemma split_on_join_with:
  "ps \<noteq> [] \<Longrightarrow> (\<And>p. p \<in> set ps \<Longrightarrow> c \<notin> set p) \<Longrightarrow> split_on c (join_with c ps) = ps"
  by (induction c ps rule: join_with.induct) (auto simp: split_on_no_sep split_on_append_sep)

lemma split_on_pieces: "p \<in> set (split_on c xs) \<Longrightarrow> c \<notin> set p"
proof (induction xs arbitrary: p)
  case (Cons x xs)
  then show ?case by (auto split: if_splits list.splits)
qed simp

section \<open>Case\<close>

definition lower_char :: "char \<Rightarrow> char" where
  "lower_char c = (let n = of_char c :: nat in if 65 \<le> n \<and> n \<le> 90 then char_of (n + 32) else c)"

definition to_lowercase :: "string \<Rightarrow> string" where
  "to_lowercase s = map lower_char s"

lemma lower_char_idem [simp]: "lower_char (lower_char c) = lower_char c"
  by (simp add: lower_char_def Let_def)

lemma to_lowercase_idem [simp]: "to_lowercase (to_lowercase s) = to_lowercase s"
  by (simp add: to_lowercase_def)

lemma to_lowercase_append [simp]: "to_lowercase (xs @ ys) = to_lowercase xs @ to_lowercase ys"
  by (simp add: to_lowercase_def)

lemma lower_char_eq_iff:
  assumes "(of_char d :: nat) < 65 \<or> 122 < (of_char d :: nat)"
  shows "lower_char c = d \<longleftrightarrow> c = d"
  using assms by (auto simp: lower_char_def Let_def)

end
