(* ===== verification/Admin.thy ===== *)
theory Admin
  imports Routing Text
begin

text \<open>
  \<open>vortex-admin/src/server.rs\<close> and \<open>k8s_watcher.rs\<close>: the control plane. \<open>SharedState\<close> is what it shares
  with the data plane: the heap of backends, the routing table, the count of connections and the
  WebAssembly payload with the poison flag of its lock. The data plane's context extends this
  record, so the handlers below act on it directly. Parsing a socket address is a parameter.
\<close>

section \<open>Shared state\<close>

record SharedState =
  bheap :: heap
  routing_table :: RoutingTable
  active_connections :: usize
  active_wasm_payload :: "u8 list"
  wasm_poisoned :: bool

section \<open>The admin service\<close>

record ReloadConfigResponse =
  rl_success :: bool
  rl_message :: string

definition install_backends :: "Backend list \<Rightarrow> 'a SharedState_scheme \<Rightarrow> 'a SharedState_scheme" where
  "install_backends new_backends st =
     (let (refs, h) = alloc new_backends (bheap st)
      in st\<lparr>bheap := h, routing_table := update_backends refs (routing_table st)\<rparr>)"

definition reload_config :: "string \<Rightarrow> 'a SharedState_scheme \<Rightarrow> ReloadConfigResponse \<times> 'a SharedState_scheme" where
  "reload_config config_path st =
     (let new_backends = [backend_new 99 (SocketAddr (V4 127 0 0 1) 9099)]
      in (\<lparr>rl_success = True, rl_message = ''Successfully fully reloaded config from '' @ config_path @
            '' and swapped routing architecture atomically.''\<rparr>,
          install_backends new_backends st))"

text \<open>\<open>as u32\<close> of a \<open>usize\<close> keeps the low 32 bits.\<close>

definition get_stats :: "'a SharedState_scheme \<Rightarrow> u32" where
  "get_stats st = ucast (active_connections st)"

record UpdateWasmResponse =
  uw_success :: bool
  uw_message :: string

definition update_wasm_plugin ::
  "u8 list \<Rightarrow> 'a SharedState_scheme \<Rightarrow> (string + UpdateWasmResponse) \<times> 'a SharedState_scheme" where
  "update_wasm_plugin wasm_binary st =
     (let new_size = length wasm_binary
      in if new_size = 0 then (Inr \<lparr>uw_success = False, uw_message = ''Provided Wasm payload is empty.''\<rparr>, st)
         else if wasm_poisoned st then (Inl ''Failed to acquire write lock on Wasm registry'', st)
         else (Inr \<lparr>uw_success = True, uw_message = ''Successfully hot-swapped Wasm plugin. New size: '' @
                 show_nat new_size @ '' bytes.''\<rparr>,
               st\<lparr>active_wasm_payload := wasm_binary\<rparr>))"

text \<open>The service: a request goes to its handler; requests that arrive on the socket are handled in turn.\<close>

datatype AdminRequest = ReloadConfigRequest string | GetStatsRequest | UpdateWasmRequest "u8 list"

datatype AdminReply = ReloadReply ReloadConfigResponse | StatsReply u32 | WasmReply "string + UpdateWasmResponse"

fun admin_service :: "AdminRequest \<Rightarrow> 'a SharedState_scheme \<Rightarrow> AdminReply \<times> 'a SharedState_scheme" where
  "admin_service (ReloadConfigRequest config_path) st = map_prod ReloadReply id (reload_config config_path st)"
| "admin_service GetStatsRequest st = (StatsReply (get_stats st), st)"
| "admin_service (UpdateWasmRequest wasm_binary) st = map_prod WasmReply id (update_wasm_plugin wasm_binary st)"

fun admin_serve :: "AdminRequest list \<Rightarrow> 'a SharedState_scheme \<Rightarrow> AdminReply list \<times> 'a SharedState_scheme" where
  "admin_serve [] st = ([], st)"
| "admin_serve (r # rs) st =
     (let (reply, st1) = admin_service r st; (replies, st2) = admin_serve rs st1 in (reply # replies, st2))"

text \<open>
  The file system as far as the socket is concerned. \<open>remove_file\<close> unlinks anything but a directory;
  \<open>UnixListener::bind\<close> makes a socket at a path that does not exist, if the process may.
\<close>

datatype fs_node = SocketFile | RegularFile | Directory

definition remove_file :: "string \<Rightarrow> (string \<Rightarrow> fs_node option) \<Rightarrow> (string + unit) \<times> (string \<Rightarrow> fs_node option)" where
  "remove_file path fs = (case fs path of
       None \<Rightarrow> (Inl ''No such file or directory'', fs)
     | Some Directory \<Rightarrow> (Inl ''Is a directory'', fs)
     | Some _ \<Rightarrow> (Inr (), fs(path := None)))"

definition uds_bind :: "bool \<Rightarrow> string \<Rightarrow> (string \<Rightarrow> fs_node option) \<Rightarrow> (string + unit) \<times> (string \<Rightarrow> fs_node option)" where
  "uds_bind permitted path fs =
     (if fs path \<noteq> None then (Inl ''Address already in use'', fs)
      else if \<not> permitted then (Inl ''Permission denied'', fs)
      else (Inr (), fs(path \<mapsto> SocketFile)))"

definition start_admin_server ::
  "bool \<Rightarrow> string \<Rightarrow> AdminRequest list \<Rightarrow> (string \<Rightarrow> fs_node option) \<Rightarrow> 'a SharedState_scheme
     \<Rightarrow> (string + AdminReply list) \<times> (string \<Rightarrow> fs_node option) \<times> 'a SharedState_scheme" where
  "start_admin_server permitted socket_path requests fs st =
     (let (_, fs1) = remove_file socket_path fs;
          (uds, fs2) = uds_bind permitted socket_path fs1
      in case uds of
           Inl e \<Rightarrow> (Inl e, fs2, st)
         | Inr _ \<Rightarrow> (let (replies, st') = admin_serve requests st in (Inr replies, fs2, st')))"

section \<open>The Kubernetes watcher\<close>

record VortexBackendMap =
  map_id :: u32
  map_address :: string
  map_ai_models :: "string list option"

type_synonym VortexRouteSpec = "VortexBackendMap list"

definition backend_of_map :: "(string \<Rightarrow> SocketAddr option) \<Rightarrow> VortexBackendMap \<Rightarrow> Backend" where
  "backend_of_map parse_addr b =
     with_models (map_id b)
       (case parse_addr (map_address b) of Some a \<Rightarrow> a | None \<Rightarrow> SocketAddr (V4 127 0 0 1) 80)
       (case map_ai_models b of Some ms \<Rightarrow> ms | None \<Rightarrow> [])"

text \<open>One event of the stream: an error of the watcher, or a route that was applied.\<close>

definition k8s_event ::
  "(string \<Rightarrow> SocketAddr option) \<Rightarrow> 'a SharedState_scheme \<Rightarrow> string + VortexRouteSpec \<Rightarrow> 'a SharedState_scheme" where
  "k8s_event parse_addr st event = (case event of
       Inl e \<Rightarrow> st
     | Inr route \<Rightarrow>
         (let new_backends = map (backend_of_map parse_addr) route
          in if new_backends \<noteq> [] then install_backends new_backends st else st))"

text \<open>The watcher: outside a cluster there is no client; otherwise it handles the stream until it ends.\<close>

definition start_k8s_watcher ::
  "string + unit \<Rightarrow> (string \<Rightarrow> SocketAddr option) \<Rightarrow> (string + VortexRouteSpec) list \<Rightarrow> 'a SharedState_scheme
     \<Rightarrow> (string + unit) \<times> 'a SharedState_scheme" where
  "start_k8s_watcher client parse_addr stream st = (case client of
       Inl e \<Rightarrow> (Inl e, st)
     | Inr _ \<Rightarrow> (Inr (), foldl (k8s_event parse_addr) st stream))"

section \<open>Lemmas\<close>

definition shared_ok :: "'a SharedState_scheme \<Rightarrow> bool" where
  "shared_ok st \<longleftrightarrow> routing_ok (bheap st) (routing_table st) \<and> backends (routing_table st) \<noteq> []
     \<and> active_wasm_payload st \<noteq> []"

lemma install_backends_table:
  "map (nth (bheap (install_backends bs st))) (backends (routing_table (install_backends bs st))) = bs"
  "length (bheap (install_backends bs st)) = length (bheap st) + length bs"
  "i < length (bheap st) \<Longrightarrow> bheap (install_backends bs st) ! i = bheap st ! i"
  "list_all (\<lambda>r. length (bheap st) \<le> r) (backends (routing_table (install_backends bs st)))"
  using alloc_fresh [of bs "bheap st"] alloc_keeps [of bs "bheap st" _ _ i]
  by (auto simp: install_backends_def update_backends_def alloc_def list_all_iff)

lemma install_backends_frame [simp]:
  "active_connections (install_backends bs st) = active_connections st"
  "active_wasm_payload (install_backends bs st) = active_wasm_payload st"
  "wasm_poisoned (install_backends bs st) = wasm_poisoned st"
  by (simp_all add: install_backends_def split_beta)

lemma install_backends_ok:
  assumes "shared_ok st" "list_all backend_ok bs" "bs \<noteq> []"
  shows "shared_ok (install_backends bs st)"
proof -
  obtain refs h where a: "alloc bs (bheap st) = (refs, h)" by fastforce
  have "routing_ok h (update_backends refs (routing_table st))"
    using assms(1,2) a by (intro routing_ok_alloc) (simp_all add: shared_ok_def)
  moreover have "refs \<noteq> []" using a assms(3) by (auto simp: alloc_def)
  ultimately show ?thesis using assms(1) a by (simp add: shared_ok_def install_backends_def update_backends_def)
qed

lemma backend_of_map_ok [simp]: "backend_ok (backend_of_map parse_addr b)"
  by (simp add: backend_of_map_def)

lemma reload_config_ok: "shared_ok st \<Longrightarrow> shared_ok (snd (reload_config path st))"
  by (simp add: reload_config_def install_backends_ok)

lemma k8s_event_ok: "shared_ok st \<Longrightarrow> shared_ok (k8s_event parse_addr st ev)"
  by (auto simp: k8s_event_def list_all_iff split: sum.splits intro!: install_backends_ok)

lemma update_wasm_plugin_ok: "shared_ok st \<Longrightarrow> shared_ok (snd (update_wasm_plugin bin st))"
  by (simp add: update_wasm_plugin_def shared_ok_def Let_def)

section \<open>Properties\<close>

text \<open>
  C27. Reconfiguration without downtime. A route that is not empty replaces the table, in one swap, by
  one new backend per entry in the order of the route, healthy, with fresh latency and breaker
  state, its models sorted, at the entry's address or \<open>127.0.0.1:80\<close> when that does not parse; no
  backend that existed changes, so requests in flight keep theirs; none of the old ones is in the
  new table. An empty route and an error of the watcher change nothing.
\<close>

theorem k8s_route_swap:
  "case ev of
     Inl e \<Rightarrow> k8s_event parse_addr st ev = st
   | Inr route \<Rightarrow>
       if route = [] then k8s_event parse_addr st ev = st
       else (let st' = k8s_event parse_addr st ev
             in map (nth (bheap st')) (backends (routing_table st'))
                  = map (\<lambda>b. with_models (map_id b)
                       (case parse_addr (map_address b) of Some a \<Rightarrow> a | None \<Rightarrow> SocketAddr (V4 127 0 0 1) 80)
                       (case map_ai_models b of Some ms \<Rightarrow> ms | None \<Rightarrow> [])) route
                \<and> take (length (bheap st)) (bheap st') = bheap st
                \<and> list_all (\<lambda>r. length (bheap st) \<le> r) (backends (routing_table st')))"
proof (cases ev)
  case (Inr route)
  have "take (length (bheap st)) (bheap (install_backends bs st)) = bheap st" for bs
    by (rule nth_equalityI) (simp_all add: install_backends_table)
  with Inr show ?thesis
    using install_backends_table [where bs = "map (backend_of_map parse_addr) route" and st = st]
    by (simp add: k8s_event_def backend_of_map_def Let_def)
qed (simp add: k8s_event_def)

text \<open>
  The admin socket. Whatever the path held before, a stale or a live socket or a plain file, the
  server removes it, binds and serves the requests; only a directory at the path is in the way, and a
  bind that is not permitted fails after the old file is gone. No failure touches the shared state.
\<close>

lemma admin_socket_takeover:
  "start_admin_server permitted path requests fs st =
     (if fs path = Some Directory then (Inl ''Address already in use'', fs, st)
      else if \<not> permitted then (Inl ''Permission denied'', fs(path := None), st)
      else (Inr (fst (admin_serve requests st)), fs(path := Some SocketFile), snd (admin_serve requests st)))"
  by (cases "fs path")
    (auto simp: start_admin_server_def remove_file_def uds_bind_def Let_def split_beta fun_upd_idem split: fs_node.splits)

text \<open>
  The control plane never empties the proxy: from a state whose table names live backends and is
  not empty and whose payload is not empty, every reload, every stream of watcher events and every
  plugin update ends in such a state.
\<close>

lemma control_plane_keeps_table_usable:
  assumes "shared_ok st"
  shows "shared_ok (snd (reload_config path st))
    \<and> shared_ok (snd (start_k8s_watcher client parse_addr events st))
    \<and> shared_ok (snd (update_wasm_plugin bin st))"
proof -
  have "shared_ok (foldl (k8s_event parse_addr) st events)"
    using assms by (induction events arbitrary: st) (simp_all add: k8s_event_ok)
  then have "shared_ok (snd (start_k8s_watcher client parse_addr events st))"
    using assms by (simp add: start_k8s_watcher_def split: sum.split)
  with assms show ?thesis by (simp add: reload_config_ok update_wasm_plugin_ok)
qed

end
