(* ===== verification/Xdp.thy ===== *)
theory Xdp
  imports Backend
begin

text \<open>
  \<open>vortex-ebpf\<close>: the \<open>XdpRateLimiter\<close> trait (\<open>lib.rs\<close>) as a record of its methods and as a locale with
  the contract its callers rely on; the in-memory limiter (\<open>mock.rs\<close>); the Linux limiter (\<open>linux.rs\<close>)
  over the kernel's hash map, which is a parameter with its documented laws; and the XDP program
  (\<open>bpf/xdp_drop.c\<close>) on the bytes of a packet. Both limiters meet the contract; whether the packets of
  a blocked address are dropped depends on the byte order of the host.
\<close>

section \<open>The trait\<close>

text \<open>The methods with the limiter's interior state passed explicitly; \<open>Inl\<close> is an error.\<close>

record 's XdpRateLimiter =
  block_ip :: "'s \<Rightarrow> IpAddr \<Rightarrow> (string + unit) \<times> 's"
  unblock_ip :: "'s \<Rightarrow> IpAddr \<Rightarrow> (string + unit) \<times> 's"
  is_ip_blocked :: "'s \<Rightarrow> IpAddr \<Rightarrow> bool"
  blocked_ip_count :: "'s \<Rightarrow> usize"

text \<open>
  The contract. \<open>covers\<close> tells which addresses the limiter can block at all: blocking another one
  reports success and does nothing.
\<close>

locale xdp_limiter =
  fixes L :: "'s XdpRateLimiter" and covers :: "IpAddr \<Rightarrow> bool"
  assumes block_ok: "block_ip L s ip = (Inr (), s') \<Longrightarrow>
      is_ip_blocked L s' j = (if j = ip \<and> covers ip then True else is_ip_blocked L s j)"
    and block_err: "block_ip L s ip = (Inl e, s') \<Longrightarrow> is_ip_blocked L s' j = is_ip_blocked L s j"
    and unblock_ok: "unblock_ip L s ip = (Inr (), s') \<Longrightarrow>
      is_ip_blocked L s' j = (j \<noteq> ip \<and> is_ip_blocked L s j)"
    and unblock_err: "unblock_ip L s ip = (Inl e, s') \<Longrightarrow> is_ip_blocked L s' j = is_ip_blocked L s j"
    and blocked_covers: "is_ip_blocked L s ip \<Longrightarrow> covers ip"
begin

lemma unblock_le: "is_ip_blocked L (snd (unblock_ip L s ip)) j \<Longrightarrow> is_ip_blocked L s j"
  using unblock_ok [of s ip _ j] unblock_err [of s ip _ _ j]
  by (cases "unblock_ip L s ip"; cases "fst (unblock_ip L s ip)") auto

lemma block_le: "is_ip_blocked L (snd (block_ip L s ip)) j \<Longrightarrow> j = ip \<or> is_ip_blocked L s j"
  using block_ok [of s ip _ j] block_err [of s ip _ _ j]
  by (cases "block_ip L s ip"; cases "fst (block_ip L s ip)") (auto split: if_splits)

lemma block_unblock:
  assumes "block_ip L s ip = (Inr (), s')" "unblock_ip L s' ip = (Inr (), s'')"
  shows "is_ip_blocked L s'' j = (j \<noteq> ip \<and> is_ip_blocked L s j)"
  using block_ok [OF assms(1), of j] unblock_ok [OF assms(2), of j] by auto

end

section \<open>The in-memory limiter\<close>

type_synonym MockXdpLimiter = "IpAddr set"

definition mock_new :: MockXdpLimiter where
  "mock_new = {}"

definition mock_default :: MockXdpLimiter where
  "mock_default = mock_new"

definition mock_block_ip :: "MockXdpLimiter \<Rightarrow> IpAddr \<Rightarrow> (string + unit) \<times> MockXdpLimiter" where
  "mock_block_ip blocked_ips ip = (Inr (), insert ip blocked_ips)"

definition mock_unblock_ip :: "MockXdpLimiter \<Rightarrow> IpAddr \<Rightarrow> (string + unit) \<times> MockXdpLimiter" where
  "mock_unblock_ip blocked_ips ip = (Inr (), blocked_ips - {ip})"

definition mock_is_ip_blocked :: "MockXdpLimiter \<Rightarrow> IpAddr \<Rightarrow> bool" where
  "mock_is_ip_blocked blocked_ips ip = (ip \<in> blocked_ips)"

definition mock_blocked_ip_count :: "MockXdpLimiter \<Rightarrow> usize" where
  "mock_blocked_ip_count blocked_ips = of_nat (card blocked_ips)"

definition mock_xdp :: "MockXdpLimiter XdpRateLimiter" where
  "mock_xdp = \<lparr>block_ip = mock_block_ip, unblock_ip = mock_unblock_ip,
     is_ip_blocked = mock_is_ip_blocked, blocked_ip_count = mock_blocked_ip_count\<rparr>"

lemmas mock_defs = mock_xdp_def mock_new_def mock_block_ip_def mock_unblock_ip_def
  mock_is_ip_blocked_def mock_blocked_ip_count_def

interpretation mock: xdp_limiter mock_xdp "\<lambda>_. True"
  by unfold_locales (auto simp: mock_defs)

section \<open>The Linux limiter\<close>

text \<open>
  The kernel's map as \<open>aya\<close> presents it: \<open>bpf_map_mut\<close> tells whether \<open>Bpf::map_mut("BLOCKED_IPS")\<close> finds the
  map, \<open>bpf_open\<close> whether \<open>HashMap::try_from\<close> accepts it; insertion and removal give \<open>None\<close> for an error.
  A map that is not found is a panic of every method that looks for it. The lock on the object can be poisoned
  by such a panic only.
\<close>

record 'm BpfMap =
  bpf_map_mut :: "'m \<Rightarrow> bool"
  bpf_open :: "'m \<Rightarrow> bool"
  bpf_insert :: "'m \<Rightarrow> u32 \<Rightarrow> u32 \<Rightarrow> 'm option"
  bpf_remove :: "'m \<Rightarrow> u32 \<Rightarrow> 'm option"
  bpf_get :: "'m \<Rightarrow> u32 \<Rightarrow> u32 option"
  bpf_keys :: "'m \<Rightarrow> u32 list"

definition from_be_bytes :: "u8 \<Rightarrow> u8 \<Rightarrow> u8 \<Rightarrow> u8 \<Rightarrow> u32" where
  "from_be_bytes a b c d = of_nat (unat a * 2 ^ 24 + unat b * 2 ^ 16 + unat c * 2 ^ 8 + unat d)"

definition linux_block_ip :: "'m BpfMap \<Rightarrow> 'm \<Rightarrow> IpAddr \<Rightarrow> ((string + unit) \<times> 'm) outcome" where
  "linux_block_ip B bpf ip = (case ip of
       V4 a b c d \<Rightarrow>
         if \<not> bpf_map_mut B bpf then Panic
         else if \<not> bpf_open B bpf then Ret (Inl ''map'', bpf)
         else Ret (case bpf_insert B bpf (from_be_bytes a b c d) 1 of
                 None \<Rightarrow> (Inl ''insert'', bpf)
               | Some bpf' \<Rightarrow> (Inr (), bpf'))
     | V6 _ \<Rightarrow> Ret (Inr (), bpf))"

definition linux_unblock_ip :: "'m BpfMap \<Rightarrow> 'm \<Rightarrow> IpAddr \<Rightarrow> ((string + unit) \<times> 'm) outcome" where
  "linux_unblock_ip B bpf ip = (case ip of
       V4 a b c d \<Rightarrow>
         if \<not> bpf_map_mut B bpf then Panic
         else if \<not> bpf_open B bpf then Ret (Inl ''map'', bpf)
         else Ret (case bpf_remove B bpf (from_be_bytes a b c d) of
                 None \<Rightarrow> (Inl ''remove'', bpf)
               | Some bpf' \<Rightarrow> (Inr (), bpf'))
     | V6 _ \<Rightarrow> Ret (Inr (), bpf))"

definition linux_is_ip_blocked :: "'m BpfMap \<Rightarrow> 'm \<Rightarrow> IpAddr \<Rightarrow> bool outcome" where
  "linux_is_ip_blocked B bpf ip = (case ip of
       V4 a b c d \<Rightarrow>
         if \<not> bpf_map_mut B bpf then Panic
         else Ret (if bpf_open B bpf then bpf_get B bpf (from_be_bytes a b c d) \<noteq> None else False)
     | V6 _ \<Rightarrow> Ret False)"

definition linux_blocked_ip_count :: "'m BpfMap \<Rightarrow> 'm \<Rightarrow> usize outcome" where
  "linux_blocked_ip_count B bpf =
     (if \<not> bpf_map_mut B bpf then Panic
      else Ret (if bpf_open B bpf then of_nat (length (bpf_keys B bpf)) else 0))"

text \<open>
  The trait's methods for a limiter whose object has the map, as the one built from \<open>bpf/xdp_drop.c\<close> has: its
  callers see methods that return. What stands for a panic is never reached, by the law \<open>has_map\<close> below.
\<close>

fun returned :: "'a \<Rightarrow> 'a outcome \<Rightarrow> 'a" where
  "returned d (Ret x) = x"
| "returned d Panic = d"

definition linux_xdp :: "'m BpfMap \<Rightarrow> 'm XdpRateLimiter" where
  "linux_xdp B = \<lparr>block_ip = (\<lambda>bpf ip. returned (Inl ''panic'', bpf) (linux_block_ip B bpf ip)),
     unblock_ip = (\<lambda>bpf ip. returned (Inl ''panic'', bpf) (linux_unblock_ip B bpf ip)),
     is_ip_blocked = (\<lambda>bpf ip. returned False (linux_is_ip_blocked B bpf ip)),
     blocked_ip_count = (\<lambda>bpf. returned 0 (linux_blocked_ip_count B bpf))\<rparr>"

lemmas linux_defs = linux_xdp_def linux_block_ip_def linux_unblock_ip_def linux_is_ip_blocked_def
  linux_blocked_ip_count_def

text \<open>
  \<open>LinuxXdpLimiter::new\<close>: what \<open>aya\<close> does is a parameter. The lookup of the program by name is followed by an
  \<open>unwrap\<close>; every other failure is an error of the constructor.
\<close>

record ('b, 'm) Aya =
  bpf_load :: "u8 list \<Rightarrow> string + 'b"
  program_mut :: "'b \<Rightarrow> string \<Rightarrow> (string + unit) option"
  program_load :: "'b \<Rightarrow> string + 'b"
  program_attach :: "'b \<Rightarrow> string \<Rightarrow> string + 'b"
  blocked_ips_map :: "'b \<Rightarrow> 'm"

definition linux_new :: "('b, 'm) Aya \<Rightarrow> string \<Rightarrow> u8 list \<Rightarrow> (string + 'm) outcome" where
  "linux_new A interface bpf_code = (case bpf_load A bpf_code of
       Inl e \<Rightarrow> Ret (Inl e)
     | Inr bpf \<Rightarrow>
         obind (unwrap (program_mut A bpf ''xdp_drop_ips'')) (\<lambda>program.
           Ret (sbind program (\<lambda>_. sbind (program_load A bpf) (\<lambda>bpf1.
                  sbind (program_attach A bpf1 interface) (\<lambda>bpf2. Inr (blocked_ips_map A bpf2)))))))"

definition is_v4 :: "IpAddr \<Rightarrow> bool" where
  "is_v4 ip = (case ip of V4 _ _ _ _ \<Rightarrow> True | V6 _ \<Rightarrow> False)"

lemma quad_inject:
  fixes a b c d :: nat
  assumes "b < 256" "c < 256" "d < 256" "b' < 256" "c' < 256" "d' < 256"
    and "a * 2 ^ 24 + b * 2 ^ 16 + c * 2 ^ 8 + d = a' * 2 ^ 24 + b' * 2 ^ 16 + c' * 2 ^ 8 + d'"
  shows "a = a' \<and> b = b' \<and> c = c' \<and> d = d'"
proof -
  have split: "x = x' \<and> y = y'" if "x * 256 + y = x' * 256 + y'" "y < 256" "y' < 256" for x y x' y' :: nat
  proof -
    have "(x * 256 + y) div 256 = (x' * 256 + y') div 256" "(x * 256 + y) mod 256 = (x' * 256 + y') mod 256"
      by (simp_all only: that(1))
    with that(2,3) show ?thesis by simp
  qed
  have "((a * 256 + b) * 256 + c) * 256 + d = ((a' * 256 + b') * 256 + c') * 256 + d'"
    using assms(7) by (simp add: algebra_simps)
  from split [OF this assms(3,6)] have d: "d = d'" "(a * 256 + b) * 256 + c = (a' * 256 + b') * 256 + c'"
    by simp_all
  from split [OF d(2) assms(2,5)] have c: "c = c'" "a * 256 + b = a' * 256 + b'" by simp_all
  from split [OF c(2) assms(1,4)] c(1) d(1) show ?thesis by simp
qed

lemma unat_u8: "unat (w :: u8) < 256"
  using unat_less_pow [of w] by simp

lemma from_be_bytes_inject [simp]:
  "from_be_bytes a b c d = from_be_bytes a' b' c' d' \<longleftrightarrow> a = a' \<and> b = b' \<and> c = c' \<and> d = d'"
proof
  assume eq: "from_be_bytes a b c d = from_be_bytes a' b' c' d'"
  have "unat (from_be_bytes p q r s) = unat p * 2 ^ 24 + unat q * 2 ^ 16 + unat r * 2 ^ 8 + unat s" for p q r s
    unfolding from_be_bytes_def using unat_u8 [of p] unat_u8 [of q] unat_u8 [of r] unat_u8 [of s]
    by (intro unat_of_nat_small) simp
  with eq have "unat a * 2 ^ 24 + unat b * 2 ^ 16 + unat c * 2 ^ 8 + unat d
      = unat a' * 2 ^ 24 + unat b' * 2 ^ 16 + unat c' * 2 ^ 8 + unat d'" by metis
  from quad_inject [OF unat_u8 unat_u8 unat_u8 unat_u8 unat_u8 unat_u8 this]
  show "a = a' \<and> b = b' \<and> c = c' \<and> d = d'" by (simp add: word_unat_eq_iff)
qed simp

text \<open>The documented behaviour of a BPF hash map.\<close>

locale bpf_map =
  fixes B :: "'m BpfMap"
  assumes has_map: "bpf_map_mut B m"
    and insert_get: "bpf_insert B m k v = Some m' \<Longrightarrow> bpf_get B m' j = (if j = k then Some v else bpf_get B m j)"
    and insert_open: "bpf_insert B m k v = Some m' \<Longrightarrow> bpf_open B m' = bpf_open B m"
    and remove_get: "bpf_remove B m k = Some m' \<Longrightarrow> bpf_get B m' j = (if j = k then None else bpf_get B m j)"
    and remove_open: "bpf_remove B m k = Some m' \<Longrightarrow> bpf_open B m' = bpf_open B m"

context bpf_map
begin

text \<open>With the map in the object no method panics, and the trait's methods are those of the code.\<close>

lemma linux_returns:
  "linux_block_ip B m ip = Ret (block_ip (linux_xdp B) m ip)" "linux_unblock_ip B m ip = Ret (unblock_ip (linux_xdp B) m ip)"
  "linux_is_ip_blocked B m ip = Ret (is_ip_blocked (linux_xdp B) m ip)"
  "linux_blocked_ip_count B m = Ret (blocked_ip_count (linux_xdp B) m)"
  by (simp_all add: linux_defs has_map split: IpAddr.split)

end

sublocale bpf_map \<subseteq> limiter: xdp_limiter "linux_xdp B" is_v4
proof
  fix s s' ip j
  assume "block_ip (linux_xdp B) s ip = (Inr (), s')"
  then show "is_ip_blocked (linux_xdp B) s' j = (if j = ip \<and> is_v4 ip then True else is_ip_blocked (linux_xdp B) s j)"
    by (auto simp: linux_defs has_map is_v4_def insert_get insert_open split: IpAddr.splits if_splits option.splits)
next
  fix s s' ip j
  assume "unblock_ip (linux_xdp B) s ip = (Inr (), s')"
  then show "is_ip_blocked (linux_xdp B) s' j = (j \<noteq> ip \<and> is_ip_blocked (linux_xdp B) s j)"
    by (auto simp: linux_defs has_map is_v4_def remove_get remove_open split: IpAddr.splits if_splits option.splits)
qed (auto simp: linux_defs has_map is_v4_def split: IpAddr.splits if_splits option.splits)

section \<open>The map the program declares\<close>

text \<open>
  \<open>BLOCKED_IPS\<close>, a hash map from \<open>u32\<close> to \<open>u32\<close> of at most 100,000 entries: an insertion of a new key
  into a full map and the removal of an absent key are errors.
\<close>

definition max_entries :: nat where
  "max_entries = 100000"

definition kernel_map :: "(u32 \<times> u32) list BpfMap" where
  "kernel_map = \<lparr>
     bpf_map_mut = (\<lambda>_. True),
     bpf_open = (\<lambda>_. True),
     bpf_insert = (\<lambda>m k v. if k \<notin> fst ` set m \<and> max_entries \<le> length m then None
        else Some ((k, v) # filter (\<lambda>e. fst e \<noteq> k) m)),
     bpf_remove = (\<lambda>m k. if k \<notin> fst ` set m then None else Some (filter (\<lambda>e. fst e \<noteq> k) m)),
     bpf_get = map_of,
     bpf_keys = map fst\<rparr>"

lemma map_of_drop_key: "map_of (filter (\<lambda>e. fst e \<noteq> k) m) j = (if j = k then None else map_of m j)"
  by (induction m) auto

interpretation kernel: bpf_map kernel_map
  by unfold_locales (auto simp: kernel_map_def map_of_drop_key split: if_splits)

section \<open>The XDP program\<close>

datatype xdp_action = XDP_DROP | XDP_PASS

text \<open>Loads from the packet and \<open>bpf_htons\<close>; \<open>le\<close> says whether the host is little-endian.\<close>

definition load16 :: "bool \<Rightarrow> u8 \<Rightarrow> u8 \<Rightarrow> u16" where
  "load16 le x y = of_nat (if le then unat y * 256 + unat x else unat x * 256 + unat y)"

definition load32 :: "bool \<Rightarrow> u8 \<Rightarrow> u8 \<Rightarrow> u8 \<Rightarrow> u8 \<Rightarrow> u32" where
  "load32 le a b c d = (if le then from_be_bytes d c b a else from_be_bytes a b c d)"

definition bpf_htons :: "bool \<Rightarrow> u16 \<Rightarrow> u16" where
  "bpf_htons le w = (if le then of_nat ((unat w mod 256) * 256 + unat w div 256) else w)"

definition ETH_P_IP :: u16 where
  "ETH_P_IP = 0x0800"

definition xdp_prog :: "bool \<Rightarrow> 'm BpfMap \<Rightarrow> 'm \<Rightarrow> u8 list \<Rightarrow> xdp_action" where
  "xdp_prog le B m data =
     (if length data < 14 then XDP_PASS
      else if load16 le (data ! 12) (data ! 13) \<noteq> bpf_htons le ETH_P_IP then XDP_PASS
      else if length data < 14 + 20 then XDP_PASS
      else let src_ip = load32 le (data ! 26) (data ! 27) (data ! 28) (data ! 29)
           in case bpf_get B m src_ip of
                Some blocked \<Rightarrow> if blocked = 1 then XDP_DROP else XDP_PASS
              | None \<Rightarrow> XDP_PASS)"

text \<open>An IPv4 packet: the bytes before the type field, the header before the source, the source, the rest.\<close>

definition ipv4_packet :: "u8 list \<Rightarrow> u8 list \<Rightarrow> u8 \<times> u8 \<times> u8 \<times> u8 \<Rightarrow> u8 list \<Rightarrow> u8 list" where
  "ipv4_packet macs header src payload =
     (case src of (a, b, c, d) \<Rightarrow> macs @ [8, 0] @ header @ [a, b, c, d] @ payload)"

lemma xdp_prog_ipv4:
  assumes "length macs = 12" "length header = 12" "4 \<le> length payload"
  shows "xdp_prog le B m (ipv4_packet macs header (a, b, c, d) payload)
    = (if bpf_get B m (load32 le a b c d) = Some 1 then XDP_DROP else XDP_PASS)"
proof -
  have "load16 le 8 0 = bpf_htons le ETH_P_IP" by (simp add: load16_def bpf_htons_def ETH_P_IP_def)
  with assms show ?thesis
    by (simp add: xdp_prog_def ipv4_packet_def nth_append Let_def split: option.split)
qed

section \<open>The Linux limiter against the in-memory one\<close>

datatype xdp_op = Block IpAddr | Unblock IpAddr

definition xdp_apply :: "'s XdpRateLimiter \<Rightarrow> 's \<Rightarrow> xdp_op \<Rightarrow> 's" where
  "xdp_apply L s oper = (case oper of Block ip \<Rightarrow> snd (block_ip L s ip) | Unblock ip \<Rightarrow> snd (unblock_ip L s ip))"

fun op_ip :: "xdp_op \<Rightarrow> IpAddr" where
  "op_ip (Block ip) = ip"
| "op_ip (Unblock ip) = ip"

fun v4_key :: "IpAddr \<Rightarrow> u32" where
  "v4_key (V4 a b c d) = from_be_bytes a b c d"
| "v4_key (V6 _) = 0"

lemma v4_key_inject: "is_v4 i \<Longrightarrow> is_v4 j \<Longrightarrow> v4_key i = v4_key j \<longleftrightarrow> i = j"
  by (cases i; cases j) (auto simp: is_v4_def)

definition linux_sim :: "(u32 \<times> u32) list \<Rightarrow> MockXdpLimiter \<Rightarrow> bool" where
  "linux_sim m s \<longleftrightarrow> distinct (map fst m) \<and> Ball s is_v4 \<and> fst ` set m = v4_key ` s"

lemma fst_set_drop: "fst ` set (filter (\<lambda>e. fst e \<noteq> k) m) = fst ` set m - {k}"
  by force

lemma distinct_drop: "distinct (map fst m) \<Longrightarrow> distinct (map fst (filter (\<lambda>e. fst e \<noteq> k) m))"
  by (induction m) auto

lemma v4_keys_remove:
  assumes "Ball s is_v4"
  shows "v4_key ` (s - {V4 a b c d}) = v4_key ` s - {from_be_bytes a b c d}"
proof -
  have "v4_key j \<noteq> from_be_bytes a b c d" if "j \<in> s" "j \<noteq> V4 a b c d" for j
    using v4_key_inject [of j "V4 a b c d"] that assms by (auto simp: is_v4_def)
  then show ?thesis by auto
qed

lemma linux_sim_block:
  assumes "linux_sim m s" "length m < max_entries"
  shows "linux_sim (xdp_apply (linux_xdp kernel_map) m (Block (V4 a b c d))) (xdp_apply mock_xdp s (Block (V4 a b c d)))
    \<and> length (xdp_apply (linux_xdp kernel_map) m (Block (V4 a b c d))) \<le> Suc (length m)"
proof -
  let ?m = "(from_be_bytes a b c d, 1) # filter (\<lambda>e. fst e \<noteq> from_be_bytes a b c d) m"
  have "xdp_apply (linux_xdp kernel_map) m (Block (V4 a b c d)) = ?m"
    using assms(2) by (simp add: xdp_apply_def linux_defs kernel_map_def)
  moreover have "distinct (map fst ?m)" "fst ` set ?m = v4_key ` insert (V4 a b c d) s"
    using assms(1) fst_set_drop [of "from_be_bytes a b c d" m] distinct_drop [of m] by (auto simp: linux_sim_def)
  ultimately show ?thesis
    using assms(1) length_filter_le [of _ m] by (simp add: linux_sim_def xdp_apply_def mock_defs is_v4_def)
qed

lemma linux_sim_unblock:
  assumes "linux_sim m s"
  shows "linux_sim (xdp_apply (linux_xdp kernel_map) m (Unblock (V4 a b c d))) (xdp_apply mock_xdp s (Unblock (V4 a b c d)))
    \<and> length (xdp_apply (linux_xdp kernel_map) m (Unblock (V4 a b c d))) \<le> Suc (length m)"
proof -
  have keys: "v4_key ` (s - {V4 a b c d}) = fst ` set m - {from_be_bytes a b c d}"
    using assms v4_keys_remove by (simp add: linux_sim_def)
  show ?thesis
  proof (cases "from_be_bytes a b c d \<in> fst ` set m")
    case True
    let ?m = "filter (\<lambda>e. fst e \<noteq> from_be_bytes a b c d) m"
    have "xdp_apply (linux_xdp kernel_map) m (Unblock (V4 a b c d)) = ?m"
      using True by (simp add: xdp_apply_def linux_defs kernel_map_def)
    moreover have "distinct (map fst ?m)" "fst ` set ?m = v4_key ` (s - {V4 a b c d})"
      using assms fst_set_drop [of "from_be_bytes a b c d" m] distinct_drop [of m] keys by (simp_all add: linux_sim_def)
    ultimately show ?thesis
      using assms le_SucI [OF length_filter_le [of _ m]] by (simp add: linux_sim_def xdp_apply_def mock_defs)
  next
    case False
    with assms keys show ?thesis
      by (auto simp: xdp_apply_def linux_defs mock_defs kernel_map_def linux_sim_def)
  qed
qed

lemma linux_sim_apply:
  assumes "linux_sim m s" "is_v4 (op_ip oper)" "length m < max_entries"
  shows "linux_sim (xdp_apply (linux_xdp kernel_map) m oper) (xdp_apply mock_xdp s oper)
    \<and> length (xdp_apply (linux_xdp kernel_map) m oper) \<le> Suc (length m)"
proof -
  obtain a b c d where "op_ip oper = V4 a b c d" using assms(2) by (auto simp: is_v4_def split: IpAddr.splits)
  then show ?thesis using linux_sim_block [OF assms(1,3)] linux_sim_unblock [OF assms(1)] by (cases oper) simp_all
qed

lemma linux_sim_run:
  assumes "linux_sim m s" "list_all (\<lambda>x. is_v4 (op_ip x)) ops" "length m + length ops \<le> max_entries"
  shows "linux_sim (foldl (xdp_apply (linux_xdp kernel_map)) m ops) (foldl (xdp_apply mock_xdp) s ops)"
  using assms
proof (induction ops arbitrary: m s)
  case (Cons x ops)
  then have "linux_sim (xdp_apply (linux_xdp kernel_map) m x) (xdp_apply mock_xdp s x)"
    "length (xdp_apply (linux_xdp kernel_map) m x) \<le> Suc (length m)"
    using linux_sim_apply [of m s x] by simp_all
  with Cons show ?case by simp
qed simp

text \<open>
  C23. The Linux limiter refines the in-memory one on IPv4: after the same sequence of blocks and
  unblocks of IPv4 addresses, at most as many as the kernel map holds, both report the same
  addresses as blocked and the same number of them, although an unblock of an absent address is an
  error on Linux only.
\<close>

theorem linux_limiter_refines_mock:
  assumes "list_all (\<lambda>x. is_v4 (op_ip x)) ops" "length ops \<le> max_entries"
  defines "m \<equiv> foldl (xdp_apply (linux_xdp kernel_map)) [] ops"
    and "s \<equiv> foldl (xdp_apply mock_xdp) mock_new ops"
  shows "is_ip_blocked (linux_xdp kernel_map) m ip = is_ip_blocked mock_xdp s ip
    \<and> blocked_ip_count (linux_xdp kernel_map) m = blocked_ip_count mock_xdp s"
proof -
  have sim: "linux_sim m s"
    unfolding m_def s_def using assms(1,2) by (intro linux_sim_run) (simp_all add: linux_sim_def mock_new_def)
  have "inj_on v4_key s" using sim by (auto simp: linux_sim_def inj_on_def v4_key_inject)
  then have "card s = card (fst ` set m)" using sim by (simp add: linux_sim_def card_image)
  also have "\<dots> = length m" using sim distinct_card [of "map fst m"] by (simp add: linux_sim_def)
  finally have "blocked_ip_count (linux_xdp kernel_map) m = blocked_ip_count mock_xdp s"
    by (simp add: linux_defs mock_defs kernel_map_def)
  moreover have "is_ip_blocked (linux_xdp kernel_map) m ip = is_ip_blocked mock_xdp s ip"
  proof (cases ip)
    case (V4 a b c d)
    have "from_be_bytes a b c d \<in> v4_key ` s \<longleftrightarrow> V4 a b c d \<in> s"
      using sim v4_key_inject [of "V4 a b c d"] by (force simp: linux_sim_def is_v4_def)
    with V4 sim show ?thesis by (simp add: linux_defs mock_defs kernel_map_def linux_sim_def map_of_eq_None_iff)
  next
    case (V6 x)
    with sim show ?thesis by (auto simp: linux_defs mock_defs linux_sim_def is_v4_def)
  qed
  ultimately show ?thesis by simp
qed

theorem linux_limiter_refines_mock_witness:
  "let ops = [Block (V4 10 0 0 1), Block (V4 10 0 0 2), Unblock (V4 10 0 0 9), Unblock (V4 10 0 0 1)]
   in is_ip_blocked (linux_xdp kernel_map) (foldl (xdp_apply (linux_xdp kernel_map)) [] ops) (V4 10 0 0 2)
      \<and> blocked_ip_count (linux_xdp kernel_map) (foldl (xdp_apply (linux_xdp kernel_map)) [] ops) = 1"
  using linux_limiter_refines_mock
    [of "[Block (V4 10 0 0 1), Block (V4 10 0 0 2), Unblock (V4 10 0 0 9), Unblock (V4 10 0 0 1)]" "V4 10 0 0 2"]
  by (simp add: is_v4_def max_entries_def mock_defs xdp_apply_def insert_Diff_if del: foldl_Cons)
    (simp add: mock_defs xdp_apply_def)

section \<open>What the kernel drops\<close>

text \<open>The limiter writes no value but one, and never closes the map.\<close>

definition ones :: "'m BpfMap \<Rightarrow> 'm \<Rightarrow> bool" where
  "ones B m \<longleftrightarrow> bpf_map_mut B m \<and> bpf_open B m \<and> (\<forall>k. bpf_get B m k = None \<or> bpf_get B m k = Some 1)"

context bpf_map
begin

lemma axioms_imp_limiter: "xdp_limiter (linux_xdp B) is_v4"
  by (rule limiter.xdp_limiter_axioms)

lemma ones_block: "ones B m \<Longrightarrow> ones B (snd (block_ip (linux_xdp B) m ip))"
  by (auto simp: ones_def linux_defs has_map insert_get insert_open split: IpAddr.splits option.splits)

lemma ones_unblock: "ones B m \<Longrightarrow> ones B (snd (unblock_ip (linux_xdp B) m ip))"
  by (auto simp: ones_def linux_defs has_map remove_get remove_open split: IpAddr.splits option.splits)

lemma ones_run: "ones B m \<Longrightarrow> ones B (foldl (xdp_apply (linux_xdp B)) m ops)"
proof (induction ops arbitrary: m)
  case (Cons x ops)
  then show ?case using ones_block ones_unblock by (cases x) (simp_all add: xdp_apply_def)
qed simp

end

text \<open>The address whose entry the program finds for a source address: on a little-endian host the reversed one.\<close>

fun looked_up :: "bool \<Rightarrow> u8 \<times> u8 \<times> u8 \<times> u8 \<Rightarrow> IpAddr" where
  "looked_up le (a, b, c, d) = (if le then V4 d c b a else V4 a b c d)"

lemma xdp_prog_ones:
  assumes "ones B m" "length macs = 12" "length header = 12" "4 \<le> length payload"
  shows "xdp_prog le B m (ipv4_packet macs header src payload)
    = (if is_ip_blocked (linux_xdp B) m (looked_up le src) then XDP_DROP else XDP_PASS)"
proof -
  obtain a b c d where src: "src = (a, b, c, d)" by (cases src)
  have "bpf_get B m (load32 le a b c d) = Some 1 \<longleftrightarrow> is_ip_blocked (linux_xdp B) m (looked_up le src)"
    using assms(1) unfolding ones_def src load32_def
    by (cases le) (auto simp: linux_defs, (metis option.inject option.distinct(1))+)
  then show ?thesis unfolding src xdp_prog_ipv4 [OF assms(2-4)] by simp
qed

text \<open>
  The XDP program and the byte order. After any sequence of blocking and unblocking by the Linux
  limiter, starting from an empty map, a well-formed IPv4 packet from \<open>a.b.c.d\<close> is dropped on a big-endian host
  exactly when the limiter reports \<open>a.b.c.d\<close> as blocked; on a little-endian host exactly when it reports
  \<open>d.c.b.a\<close> as blocked, so that a banned address passes, and an address nobody banned is dropped, unless its
  bytes read the same backwards.
\<close>

lemma xdp_drops_by_byte_order:
  assumes "bpf_map B" "bpf_open B m" "\<And>k. bpf_get B m k = None"
    and "length macs = 12" "length header = 12" "4 \<le> length payload" "m' = foldl (xdp_apply (linux_xdp B)) m ops"
  shows "xdp_prog le B m' (ipv4_packet macs header (a, b, c, d) payload)
    = (if is_ip_blocked (linux_xdp B) m' (if le then V4 d c b a else V4 a b c d) then XDP_DROP else XDP_PASS)"
proof -
  have "ones B m'" unfolding assms(7) by (intro bpf_map.ones_run assms(1)) (simp add: ones_def assms(2,3) bpf_map.has_map [OF assms(1)])
  from xdp_prog_ones [OF this assms(4-6), of le "(a, b, c, d)"] show ?thesis by simp
qed

end
