(* ===== verification/Rate_Limit.thy ===== *)
theory Rate_Limit
  imports Float64 Text
begin

text \<open>
  \<open>vortex-core/src/domain/rate_limit.rs\<close> and \<open>vortex-filters/src/rate_limiter/redis_store.rs\<close>: the
  result of a rate check, the GCRA script the store runs inside Redis, and \<open>check_rate_limit\<close> around
  it. Lua numbers are doubles, so the script is the IEEE arithmetic of \<open>Float64\<close>. Redis and the
  number formatting of its Lua interpreter are parameters (\<open>Redis\<close>); \<open>redis_laws\<close> is their documented
  behaviour. The script refines an integer GCRA (\<open>gcra_spec\<close>) whenever the limit divides the period.
  The locale \<open>gcra_store\<close> is the contract of the trait \<open>RateStore\<close> that its clients use.
\<close>

section \<open>Durations and results\<close>

text \<open>\<open>std::time::Duration\<close>, in nanoseconds.\<close>

type_synonym Duration = nat

definition from_secs :: "nat \<Rightarrow> Duration" where
  "from_secs s = s * 1000000000"

definition from_millis :: "nat \<Rightarrow> Duration" where
  "from_millis m = m * 1000000"

definition as_millis :: "Duration \<Rightarrow> nat" where
  "as_millis d = d div 1000000"

record RateLimitResult =
  allowed :: bool
  remaining :: u64
  reset_after :: Duration

section \<open>Redis as the script uses it\<close>

text \<open>
  \<open>redis_get s t k\<close>: the reply of \<open>GET k\<close> at server time \<open>t\<close> (milliseconds), \<open>None\<close> for a missing or
  expired key. \<open>redis_set_px s t k v px\<close>: the store after \<open>SET k v PX px\<close>, \<open>None\<close> for an error reply,
  which \<open>redis.call\<close> raises. \<open>lua_tostring\<close> is the conversion of number arguments by \<open>redis.call\<close>.
\<close>

record 's Redis =
  redis_get :: "'s \<Rightarrow> nat \<Rightarrow> string \<Rightarrow> string option"
  redis_set_px :: "'s \<Rightarrow> nat \<Rightarrow> string \<Rightarrow> string \<Rightarrow> string \<Rightarrow> 's option"
  lua_tonumber :: "string \<Rightarrow> f64 option"
  lua_tostring :: "f64 \<Rightarrow> string"

text \<open>Lua's \<open>math.max\<close> of two numbers, and the conversion of a number to an integer reply.\<close>

definition lua_max :: "f64 \<Rightarrow> f64 \<Rightarrow> f64" where
  "lua_max a b = (if f64_gt b a then b else a)"

definition lua_integer :: "f64 \<Rightarrow> i64" where
  "lua_integer x = (case view x of
       Fin s a \<Rightarrow> (let z = sval s (a div one_u)
                   in if - (2 ^ 63) \<le> z \<and> z < 2 ^ 63 then of_int z else 0x8000000000000000)
     | _ \<Rightarrow> 0x8000000000000000)"

definition clamp_zero :: "f64 \<Rightarrow> f64" where
  "clamp_zero x = (if f64_gt (f64_zero False) x then f64_zero False else x)"

section \<open>The script and the store\<close>

type_synonym reply = "i64 \<times> i64 \<times> i64"

definition gcra_script ::
  "'s Redis \<Rightarrow> nat \<Rightarrow> string \<Rightarrow> f64 \<Rightarrow> f64 \<Rightarrow> f64 \<Rightarrow> f64 \<Rightarrow> 's \<Rightarrow> (reply \<times> 's) option" where
  "gcra_script R server_time key limit period_ms now_ms cost s =
     (let emission_interval = f64_div period_ms limit;
          burst_offset = period_ms
      in case (case redis_get R s server_time key of
                 None \<Rightarrow> Some now_ms
               | Some v \<Rightarrow> lua_tonumber R v) of
           None \<Rightarrow> None
         | Some tat0 \<Rightarrow>
             (let tat = lua_max tat0 now_ms;
                  new_tat = f64_add tat (f64_mul emission_interval cost);
                  allow_at = f64_sub new_tat burst_offset
              in if f64_gt allow_at now_ms
                 then (let rem = f64_floor (f64_div (f64_sub period_ms (f64_sub tat now_ms)) emission_interval)
                       in Some ((0, lua_integer (clamp_zero rem), lua_integer (f64_sub tat now_ms)), s))
                 else (case redis_set_px R s server_time key (lua_tostring R new_tat)
                              (lua_tostring R (f64_ceil (f64_sub new_tat now_ms))) of
                         None \<Rightarrow> None
                       | Some s' \<Rightarrow>
                           (let rem = f64_floor (f64_div (f64_sub period_ms (f64_sub new_tat now_ms)) emission_interval)
                            in Some ((1, lua_integer (clamp_zero rem), lua_integer (f64_sub new_tat now_ms)), s')))))"

text \<open>
  \<open>RedisStore::check_rate_limit\<close>. The environment of a call: whether the pool yields a connection,
  the client's clock, the server's clock, and whether the request or the reply is lost on the way.
\<close>

datatype rate_error = PoolError | ClockError | RedisError

datatype delivery = Delivered | RequestLost | ReplyLost

record rate_env =
  pool_ok :: bool
  clock_ms :: "nat option"
  server_ms :: nat
  delivery :: delivery

text \<open>\<open>RedisStore::new\<close>: building the connection pool from the URL is a parameter, and its failure a panic.\<close>

definition redis_store_new :: "(string \<Rightarrow> string + 's) \<Rightarrow> string \<Rightarrow> 's outcome" where
  "redis_store_new create_pool redis_url = expect (create_pool redis_url)"

definition check_rate_limit ::
  "'s Redis \<Rightarrow> rate_env \<Rightarrow> string \<Rightarrow> u64 \<Rightarrow> Duration \<Rightarrow> u64 \<Rightarrow> 's \<Rightarrow> (rate_error + RateLimitResult) \<times> 's" where
  "check_rate_limit R env key limit period cost s =
     (if \<not> pool_ok env then (Inl PoolError, s)
      else case clock_ms env of
        None \<Rightarrow> (Inl ClockError, s)
      | Some clk \<Rightarrow>
          (let now = of_nat clk :: u64;
               period_ms = of_nat (as_millis period) :: u64
           in if delivery env = RequestLost then (Inl RedisError, s)
              else case gcra_script R (server_ms env) key (f64_of_u64 limit) (f64_of_u64 period_ms)
                          (f64_of_u64 now) (f64_of_u64 cost) s of
                None \<Rightarrow> (Inl RedisError, s)
              | Some ((r0, r1, r2), s') \<Rightarrow>
                  (if delivery env = ReplyLost then (Inl RedisError, s')
                   else (Inr \<lparr>allowed = (r0 = 1), remaining = r1,
                               reset_after = from_millis (nat (max 0 (sint r2)))\<rparr>, s'))))"

section \<open>Specification: integer GCRA\<close>

text \<open>
  The theoretical arrival time \<open>st\<close> (milliseconds), the emission interval \<open>ei\<close>, the period \<open>P\<close>:
  whether the request is admitted, the whole tokens left, the time until the bucket is full again.
\<close>

definition gcra_tat :: "nat \<Rightarrow> nat option \<Rightarrow> nat" where
  "gcra_tat now st = max (case st of None \<Rightarrow> now | Some t \<Rightarrow> t) now"

definition gcra_spec :: "nat \<Rightarrow> nat \<Rightarrow> nat \<Rightarrow> nat \<Rightarrow> nat option \<Rightarrow> (bool \<times> nat \<times> nat) \<times> nat option" where
  "gcra_spec ei P now cost st =
     (let tat = gcra_tat now st; new_tat = tat + ei * cost
      in if new_tat > now + P
         then ((False, (P - (tat - now)) div ei, tat - now), st)
         else ((True, (P - (new_tat - now)) div ei, new_tat - now), Some new_tat))"

text \<open>
  What the code relies on of Redis and of number formatting: whole numbers up to \<open>2 ^ 53\<close> survive a
  round trip through a string; \<open>SET .. PX p\<close> with a positive whole \<open>p\<close> succeeds, is read back for \<open>p\<close>
  milliseconds and not after them, in the last of which it may be there or not, and touches no other key;
  \<open>PX 0\<close> is an error.
\<close>

definition redis_laws :: "'s Redis \<Rightarrow> bool" where
  "redis_laws R \<longleftrightarrow>
     (\<forall>n. n \<le> 2 ^ 53 \<longrightarrow> lua_tonumber R (lua_tostring R (f64_of_nat n)) = Some (f64_of_nat n)) \<and>
     (\<forall>s t k v p. 0 < p \<and> p \<le> 2 ^ 53 \<longrightarrow>
        (\<exists>s'. redis_set_px R s t k v (lua_tostring R (f64_of_nat p)) = Some s' \<and>
              (\<forall>t' \<ge> t. (t' < t + p \<longrightarrow> redis_get R s' t' k = Some v) \<and> (t + p < t' \<longrightarrow> redis_get R s' t' k = None)
                 \<and> (t' = t + p \<longrightarrow> redis_get R s' t' k = Some v \<or> redis_get R s' t' k = None)) \<and>
              (\<forall>t' k'. k' \<noteq> k \<longrightarrow> redis_get R s' t' k' = redis_get R s t' k'))) \<and>
     (\<forall>s t k v. redis_set_px R s t k v (lua_tostring R (f64_of_nat 0)) = None)"

text \<open>
  The arrival time a store stands for from \<open>now\<close> on: a key may have expired only once its arrival
  time has passed, when it no longer matters.
\<close>

definition gcra_rel :: "'s Redis \<Rightarrow> string \<Rightarrow> nat \<Rightarrow> 's \<Rightarrow> nat option \<Rightarrow> bool" where
  "gcra_rel R key now s st \<longleftrightarrow>
     (\<forall>t' \<ge> now. case redis_get R s t' key of
        Some v \<Rightarrow> (\<exists>t. st = Some t \<and> v = lua_tostring R (f64_of_nat t))
      | None \<Rightarrow> (case st of None \<Rightarrow> True | Some t \<Rightarrow> t \<le> t'))"

section \<open>Exact arithmetic\<close>

lemma f64_floor_of_nat: "n \<le> 2 ^ 53 \<Longrightarrow> f64_floor (f64_of_nat n) = f64_of_nat n"
  by (simp add: f64_floor_def view_simps sval_def nat_div_distrib)
    (simp add: f64_of_nat_def flip: of_nat_mult)

lemma f64_ceil_of_nat:
  assumes "n \<le> 2 ^ 53"
  shows "f64_ceil (f64_of_nat n) = f64_of_nat n"
proof -
  have "- (int n * int one_u) div int one_u = (- int n) * int one_u div int one_u" by simp
  also have "\<dots> = - int n" by (rule nonzero_mult_div_cancel_right) simp
  finally show ?thesis using assms
    by (simp add: f64_ceil_def view_simps sval_def) (simp add: f64_of_nat_def)
qed

lemma lua_integer_of_nat: "n \<le> 2 ^ 53 \<Longrightarrow> lua_integer (f64_of_nat n) = of_nat n"
  by (simp add: lua_integer_def view_simps sval_def)

lemma clamp_zero_of_nat: "n \<le> 2 ^ 53 \<Longrightarrow> clamp_zero (f64_of_nat n) = f64_of_nat n"
  using f64_gt_nn [OF view_zero view_of_nat, of n] by (simp add: clamp_zero_def)

lemma lua_max_of_nat:
  "m \<le> 2 ^ 53 \<Longrightarrow> n \<le> 2 ^ 53 \<Longrightarrow> lua_max (f64_of_nat m) (f64_of_nat n) = f64_of_nat (max m n)"
  by (simp add: lua_max_def f64_gt_of_nat max_def)

text \<open>The quotient of whole numbers, rounded and then floored, is the integer quotient.\<close>

lemma dyadic_below_next_integer:
  assumes "x + n \<le> 2 ^ 52" "0 < n"
  shows "\<exists>b. mag b < (x div n + 1) * one_u \<and> x * one_u \<le> mag b * n"
proof -
  define q where "q = x div n"
  define t where "t = nbits n"
  define y where "y = (q + 1) * 2 ^ t - 1"
  have qx: "q * n \<le> x" "x < (q + 1) * n"
    using assms(2) by (simp_all add: q_def dividend_less_div_times)
  have t: "n < 2 ^ t" "2 ^ t \<le> 2 * n" "t \<le> 53"
  proof -
    show "n < 2 ^ t" by (simp add: t_def nbits_upper)
    have "nbits n = Suc (nbits n - 1)" using assms(2) by (simp add: nbits_pos)
    then have "2 ^ t = (2::nat) * 2 ^ (nbits n - 1)" unfolding t_def by (metis power_Suc)
    then show "2 ^ t \<le> 2 * n" using nbits_lower [OF assms(2)] by simp
    have "n < 2 ^ 53" using assms(1) by simp
    then show "t \<le> 53" unfolding t_def by (simp only: nbits_le_iff)
  qed
  have "(q + 1) * 2 ^ t \<le> (q + 1) * (2 * n)" using t(2) by (rule mult_le_mono2)
  also have "\<dots> \<le> 2 * (x + n)" using qx(1) by (simp add: algebra_simps)
  finally have yb: "y < 2 ^ 53" using assms(1) by (simp add: y_def)
  have u: "one_u = 2 ^ t * 2 ^ (1074 - t)"
    unfolding one_u_def using t(3) by (simp only: power_add [symmetric]) simp
  obtain b where b: "mag b = y * 2 ^ (1074 - t)" using mag_dyadic [OF yb] by blast
  have ylt: "y * 2 ^ (1074 - t) < (q + 1) * one_u"
    unfolding u y_def by (simp add: algebra_simps)
  have bound: "x * 2 ^ t \<le> y * n"
  proof -
    have "(x + 1) * 2 ^ t \<le> (q + 1) * n * 2 ^ t" using qx(2) by (intro mult_le_mono1) simp
    moreover have "n \<le> 2 ^ t" using t(1) by simp
    ultimately show ?thesis unfolding y_def by (simp add: algebra_simps diff_mult_distrib)
  qed
  have "mag b * n = (y * n) * 2 ^ (1074 - t)" by (simp add: b)
  also have "\<dots> \<ge> (x * 2 ^ t) * 2 ^ (1074 - t)" using bound by (rule mult_le_mono1)
  finally have "x * one_u \<le> mag b * n" by (simp add: u mult.assoc)
  moreover have "mag b < (x div n + 1) * one_u" using ylt by (simp add: b q_def)
  ultimately show ?thesis by blast
qed

lemma f64_floor_div_of_nat:
  assumes "x + n \<le> 2 ^ 52" "0 < n"
  shows "f64_floor (f64_div (f64_of_nat x) (f64_of_nat n)) = f64_of_nat (x div n)"
proof -
  define q where "q = x div n"
  have qx: "q * n \<le> x" by (simp add: q_def)
  obtain b where b: "mag b < (q + 1) * one_u" "x * one_u \<le> mag b * n"
    using dyadic_below_next_integer [OF assms] unfolding q_def by blast
  have "q \<le> x" by (simp add: q_def)
  then have xn: "x \<le> 2 ^ 53" "n \<le> 2 ^ 53" "q < 2 ^ 53" using assms by simp_all
  define r where "r = round_mag (x * one_u * one_u) (n * one_u)"
  have div: "f64_div (f64_of_nat x) (f64_of_nat n) = f64_round False (x * one_u * one_u) (n * one_u)"
    using xn assms(2) by (intro f64_div_nn view_of_nat) simp_all
  have "r \<le> b"
    unfolding r_def using assms(2) b(2) by (intro round_mag_le) (simp_all add: mult.assoc [symmetric])
  then have hi: "mag r < (q + 1) * one_u" using b(1) by (metis mag_le_iff order_le_less_trans)
  have "mag (round_mag (q * one_u) 1) = q * one_u" using xn by (intro mag_nat) simp
  moreover have "round_mag (q * one_u) 1 \<le> r"
    unfolding r_def using assms(2) qx by (intro round_mag_mono) simp_all
  ultimately have lo: "q * one_u \<le> mag r" by (metis mag_le_iff)
  have "(q + 1) * one_u \<le> 2 ^ 1024 * one_u"
  proof (rule mult_le_mono1)
    have "(2::nat) ^ 53 \<le> 2 ^ 1024" by (rule power_increasing) simp_all
    with xn(3) show "q + 1 \<le> 2 ^ 1024" by linarith
  qed
  with hi have "mag r < mag inf_bits" unfolding mag_inf_bits by (rule less_le_trans)
  then have "view (f64_div (f64_of_nat x) (f64_of_nat n)) = Fin False (mag r)"
    unfolding div by (simp add: view_round r_def)
  moreover have "mag r div one_u = q" using lo hi by (intro div_nat_eqI) (simp_all add: mult.commute)
  then have "nat \<bar>int (mag r) div int one_u\<bar> = q" by (simp flip: of_nat_div)
  ultimately show ?thesis
    by (simp add: f64_floor_def sval_def q_def f64_of_nat_def)
qed

section \<open>Refinement\<close>

text \<open>
  The configurations covered: the limit \<open>L\<close> divides the period \<open>P\<close> (the proxy uses 1000 and 60000),
  and all times and costs in milliseconds are below \<open>2 ^ 50\<close> (35,000 years).
\<close>

definition gcra_config :: "nat \<Rightarrow> nat \<Rightarrow> nat \<Rightarrow> nat \<Rightarrow> bool" where
  "gcra_config L ei P now \<longleftrightarrow> L * ei = P \<and> 0 < P \<and> P \<le> now \<and> now \<le> 2 ^ 50"

lemma gcra_relD:
  "gcra_rel R key now s st \<Longrightarrow> now \<le> t' \<Longrightarrow>
     case redis_get R s t' key of
        Some v \<Rightarrow> (\<exists>t. st = Some t \<and> v = lua_tostring R (f64_of_nat t))
      | None \<Rightarrow> (case st of None \<Rightarrow> True | Some t \<Rightarrow> t \<le> t')"
  by (simp add: gcra_rel_def)

lemma gcra_read:
  assumes "redis_laws R" "gcra_rel R key now s st" "\<forall>t. st = Some t \<longrightarrow> t \<le> 2 ^ 53" "now \<le> 2 ^ 53"
  shows "\<exists>tat0. (case redis_get R s now key of None \<Rightarrow> Some (f64_of_nat now) | Some v \<Rightarrow> lua_tonumber R v)
      = Some tat0 \<and> lua_max tat0 (f64_of_nat now) = f64_of_nat (gcra_tat now st)"
proof (cases "redis_get R s now key")
  case None
  with gcra_relD [OF assms(2), of now] have "case st of None \<Rightarrow> True | Some t \<Rightarrow> t \<le> now" by simp
  then have "gcra_tat now st = now" by (auto simp: gcra_tat_def split: option.splits)
  with None assms(4) show ?thesis by (simp add: lua_max_of_nat)
next
  case (Some v)
  with gcra_relD [OF assms(2), of now] obtain t where t: "st = Some t" "v = lua_tostring R (f64_of_nat t)"
    by auto
  with assms(1,3) have "lua_tonumber R v = Some (f64_of_nat t)" by (simp add: redis_laws_def)
  with Some t assms(3,4) show ?thesis by (simp add: lua_max_of_nat gcra_tat_def)
qed

lemma gcra_set:
  assumes "redis_laws R" "0 < p" "p \<le> 2 ^ 53" "new = now + p"
  shows "\<exists>s'. redis_set_px R s now key (lua_tostring R (f64_of_nat new)) (lua_tostring R (f64_of_nat p)) = Some s'
      \<and> gcra_rel R key now s' (Some new)
      \<and> (\<forall>t' k'. k' \<noteq> key \<longrightarrow> redis_get R s' t' k' = redis_get R s t' k')"
proof -
  have "\<exists>s'. redis_set_px R s now key (lua_tostring R (f64_of_nat new)) (lua_tostring R (f64_of_nat p)) = Some s'
      \<and> (\<forall>t' \<ge> now. redis_get R s' t' key = Some (lua_tostring R (f64_of_nat new)) \<or> redis_get R s' t' key = None \<and> now + p \<le> t')
      \<and> (\<forall>t' k'. k' \<noteq> key \<longrightarrow> redis_get R s' t' k' = redis_get R s t' k')"
    using assms(1-3) unfolding redis_laws_def by (metis linorder_cases order_less_imp_le order_refl)
  then show ?thesis using assms(4) by (fastforce simp: gcra_rel_def split: option.split)
qed

lemma gcra_left:
  assumes "now \<le> 2 ^ 50" "P \<le> 2 ^ 50" "0 < ei" "ei \<le> P" "now \<le> x" "x \<le> now + P"
  shows "lua_integer (clamp_zero (f64_floor (f64_div (f64_sub (f64_of_nat P) (f64_sub (f64_of_nat x) (f64_of_nat now))) (f64_of_nat ei))))
      = of_nat ((P - (x - now)) div ei)"
proof -
  have "(P - (x - now)) div ei \<le> P" using div_le_dividend [of "P - (x - now)" ei] by linarith
  then have b: "(P - (x - now)) div ei \<le> 2 ^ 53" using assms(2) by simp
  have "lua_integer (clamp_zero (f64_of_nat ((P - (x - now)) div ei))) = of_nat ((P - (x - now)) div ei)"
    by (simp only: clamp_zero_of_nat [OF b] lua_integer_of_nat [OF b])
  with assms show ?thesis by (simp add: f64_sub_of_nat f64_floor_div_of_nat)
qed

lemma f64_sub_now:
  assumes "now \<le> x" "x \<le> 2 ^ 52"
  shows "f64_sub (f64_of_nat x) (f64_of_nat now) = f64_of_nat (x - now)"
    and "lua_integer (f64_of_nat (x - now)) = of_nat (x - now)"
  using assms by (simp_all add: f64_sub_of_nat lua_integer_of_nat)

lemma gcra_script_exact:
  assumes "gcra_config L ei P now" "0 < c" "ei * c \<le> 2 ^ 50" "now \<le> tat" "tat \<le> now + P"
    and t0: "(case redis_get R s srv key of None \<Rightarrow> Some (f64_of_nat now) | Some v \<Rightarrow> lua_tonumber R v) = Some tat0"
    and tat: "lua_max tat0 (f64_of_nat now) = f64_of_nat tat"
  shows "gcra_script R srv key (f64_of_nat L) (f64_of_nat P) (f64_of_nat now) (f64_of_nat c) s
    = (if tat + ei * c > now + P
       then Some ((0, of_nat ((P - (tat - now)) div ei), of_nat (tat - now)), s)
       else map_option (Pair (1, of_nat ((P - (tat + ei * c - now)) div ei), of_nat (tat + ei * c - now)))
         (redis_set_px R s srv key (lua_tostring R (f64_of_nat (tat + ei * c)))
           (lua_tostring R (f64_of_nat (tat + ei * c - now)))))"
proof -
  note cfg = assms(1) [unfolded gcra_config_def]
  have ei: "0 < ei" "0 < L" using cfg by (auto intro!: gr0I)
  have "L \<le> L * ei" "c \<le> ei * c" "ei \<le> L * ei" using ei by simp_all
  then have b: "L \<le> 2 ^ 50" "c \<le> 2 ^ 50" "P \<le> 2 ^ 50" "now \<le> 2 ^ 50" "ei \<le> P"
    using cfg assms(3) by linarith+
  define new where "new = tat + ei * c"
  have new: "now \<le> new" "new \<le> 2 ^ 52" "tat \<le> 2 ^ 52"
    using assms(3-5) b by (simp_all add: new_def)
  have e1: "f64_div (f64_of_nat P) (f64_of_nat L) = f64_of_nat ei"
    using f64_div_of_nat [of ei L] cfg b ei by (simp add: mult.commute)
  have e2: "f64_add (f64_of_nat tat) (f64_mul (f64_of_nat ei) (f64_of_nat c)) = f64_of_nat new"
    using b new(3) assms(3) by (simp add: f64_mul_of_nat f64_add_of_nat new_def)
  have e3: "f64_gt (f64_sub (f64_of_nat new) (f64_of_nat P)) (f64_of_nat now) \<longleftrightarrow> new > now + P"
    using b new cfg by (simp add: f64_sub_of_nat f64_gt_of_nat) linarith
  have ceil: "f64_ceil (f64_of_nat (new - now)) = f64_of_nat (new - now)"
    using new by (simp add: f64_ceil_of_nat)
  note left = gcra_left [OF b(4,3) ei(1) b(5)]
  note sub = f64_sub_now [OF new(1,2)] f64_sub_now [OF assms(4) new(3)]
  show ?thesis
  proof (cases "new > now + P")
    case True
    then show ?thesis
      unfolding gcra_script_def Let_def t0 tat e1 option.case e2 e3 new_def [symmetric] left [OF assms(4,5)]
      by (simp add: sub)
  next
    case False
    then have le: "new \<le> now + P" by simp
    show ?thesis
      unfolding gcra_script_def Let_def t0 tat e1 option.case e2 e3 new_def [symmetric] left [OF new(1) le]
      using False by (simp add: sub ceil split: option.splits)
  qed
qed

lemma gcra_script_refines:
  assumes "redis_laws R" "gcra_rel R key now s st" "gcra_config L ei P now"
    and "0 < c" "ei * c \<le> 2 ^ 50" "\<forall>t. st = Some t \<longrightarrow> t \<le> now + P"
    and spec: "gcra_spec ei P now c st = ((a, rem, reset), st')"
  shows "\<exists>s'. gcra_script R now key (f64_of_nat L) (f64_of_nat P) (f64_of_nat now) (f64_of_nat c) s
        = Some ((if a then 1 else 0, of_nat rem, of_nat reset), s')
      \<and> gcra_rel R key now s' st'
      \<and> (\<forall>t' k'. k' \<noteq> key \<longrightarrow> redis_get R s' t' k' = redis_get R s t' k')"
proof -
  have b: "P \<le> 2 ^ 50" "now \<le> 2 ^ 50" and ei: "0 < ei * c"
    using assms(3,4) by (auto simp: gcra_config_def intro!: gr0I)
  define tat where "tat = gcra_tat now st"
  have tat: "now \<le> tat" "tat \<le> now + P"
    using assms(6) by (auto simp: tat_def gcra_tat_def split: option.splits)
  obtain tat0 where t0: "(case redis_get R s now key of None \<Rightarrow> Some (f64_of_nat now) | Some v \<Rightarrow> lua_tonumber R v)
      = Some tat0" "lua_max tat0 (f64_of_nat now) = f64_of_nat tat"
    using gcra_read [OF assms(1,2)] assms(6) b tat_def by fastforce
  define new where "new = tat + ei * c"
  have "now < new" using tat(1) ei unfolding new_def by linarith
  moreover have "new - now \<le> 2 ^ 53" using tat b assms(5) by (simp add: new_def)
  ultimately have new: "now < new" "new - now \<le> 2 ^ 53" .
  note run = gcra_script_exact [OF assms(3-5) tat t0, folded new_def]
  have spec': "gcra_spec ei P now c st = (if new > now + P
         then ((False, (P - (tat - now)) div ei, tat - now), st)
         else ((True, (P - (new - now)) div ei, new - now), Some new))"
    by (simp add: gcra_spec_def tat_def new_def Let_def)
  show ?thesis
  proof (cases "new > now + P")
    case True
    with run spec spec' assms(2) show ?thesis by auto
  next
    case False
    obtain s' where "redis_set_px R s now key (lua_tostring R (f64_of_nat new)) (lua_tostring R (f64_of_nat (new - now))) = Some s'"
      "gcra_rel R key now s' (Some new)" "\<forall>t' k'. k' \<noteq> key \<longrightarrow> redis_get R s' t' k' = redis_get R s t' k'"
      using gcra_set [OF assms(1) _ new(2), of new now s key] new(1) by auto
    with run spec spec' False show ?thesis by auto
  qed
qed

section \<open>Runs of checks\<close>

text \<open>
  A sequence of checks, each a key, a time and a cost, against one store, with every message
  delivered and the clocks of proxy and Redis in agreement.
\<close>

type_synonym request = "string \<times> nat \<times> u64"

definition env_at :: "nat \<Rightarrow> rate_env" where
  "env_at t = \<lparr>pool_ok = True, clock_ms = Some t, server_ms = t, delivery = Delivered\<rparr>"

text \<open>
  The trait \<open>RateStore\<close>: what a store answers at a time for a key, a limit, a period and a cost, and the
  store after it.
\<close>

type_synonym 's rate_check =
  "nat \<Rightarrow> string \<Rightarrow> u64 \<Rightarrow> Duration \<Rightarrow> u64 \<Rightarrow> 's \<Rightarrow> (rate_error + RateLimitResult) \<times> 's"

fun store_run :: "'s rate_check \<Rightarrow> u64 \<Rightarrow> Duration \<Rightarrow> request list \<Rightarrow> 's \<Rightarrow> (rate_error + RateLimitResult) list \<times> 's" where
  "store_run check limit period [] s = ([], s)"
| "store_run check limit period ((k, t, c) # rs) s =
     (let (r, s') = check t k limit period c s;
          (rs', s'') = store_run check limit period rs s'
      in (r # rs', s''))"

abbreviation check_run :: "'s Redis \<Rightarrow> u64 \<Rightarrow> Duration \<Rightarrow> request list \<Rightarrow> 's \<Rightarrow> (rate_error + RateLimitResult) list \<times> 's" where
  "check_run R \<equiv> store_run (\<lambda>t. check_rate_limit R (env_at t))"

fun spec_run :: "nat \<Rightarrow> nat \<Rightarrow> request list \<Rightarrow> (string \<Rightarrow> nat option) \<Rightarrow> (bool \<times> nat \<times> nat) list \<times> (string \<Rightarrow> nat option)" where
  "spec_run ei P [] m = ([], m)"
| "spec_run ei P ((k, t, c) # rs) m =
     (let (r, st) = gcra_spec ei P t (unat c) (m k);
          (rs', m') = spec_run ei P rs (m(k := st))
      in (r # rs', m'))"

text \<open>Times do not decrease, costs are positive, and everything stays below \<open>2 ^ 50\<close>.\<close>

fun requests_ok :: "nat \<Rightarrow> nat \<Rightarrow> request list \<Rightarrow> bool" where
  "requests_ok ei t0 [] \<longleftrightarrow> True"
| "requests_ok ei t0 ((k, t, c) # rs) \<longleftrightarrow>
     t0 \<le> t \<and> t \<le> 2 ^ 50 \<and> 0 < c \<and> ei * unat c \<le> 2 ^ 50 \<and> requests_ok ei t rs"

definition result_of :: "bool \<times> nat \<times> nat \<Rightarrow> rate_error + RateLimitResult" where
  "result_of = (\<lambda>(a, rem, reset). Inr \<lparr>allowed = a, remaining = of_nat rem, reset_after = from_millis reset\<rparr>)"

text \<open>The cost admitted for a key over a run.\<close>

fun admitted_cost :: "string \<Rightarrow> request list \<Rightarrow> (rate_error + RateLimitResult) list \<Rightarrow> nat" where
  "admitted_cost k ((k', t, c) # rs) (r # rs') =
     (if k' = k \<and> (case r of Inr x \<Rightarrow> allowed x | Inl _ \<Rightarrow> False) then unat c else 0) + admitted_cost k rs rs'"
| "admitted_cost k _ _ = 0"

definition gcra_sim :: "'s Redis \<Rightarrow> nat \<Rightarrow> nat \<Rightarrow> 's \<Rightarrow> (string \<Rightarrow> nat option) \<Rightarrow> bool" where
  "gcra_sim R P now s m \<longleftrightarrow>
     (\<forall>k. gcra_rel R k now s (m k) \<and> (\<forall>t. m k = Some t \<longrightarrow> t \<le> now + P))"

lemma gcra_sim_later: "gcra_sim R P now s m \<Longrightarrow> now \<le> now' \<Longrightarrow> gcra_sim R P now' s m"
  unfolding gcra_sim_def gcra_rel_def by (meson add_le_mono1 order_trans)

lemma gcra_spec_bounds:
  assumes "gcra_spec ei P now c st = ((a, rem, reset), st')" "\<forall>t. st = Some t \<longrightarrow> t \<le> now + P"
  shows "reset \<le> P" "rem \<le> P" "\<forall>t. st' = Some t \<longrightarrow> t \<le> now + P"
    and "gcra_tat now st + (if a then ei * c else 0) = gcra_tat now st'"
    and "gcra_tat now st' \<le> now + P"
proof -
  have d: "(P - x) div ei \<le> P" for x using div_le_dividend [of "P - x" ei] by linarith
  have tat: "now \<le> gcra_tat now st" "gcra_tat now st \<le> now + P"
    using assms(2) by (auto simp: gcra_tat_def split: option.splits)
  have cases: "\<not> a \<and> rem = (P - (gcra_tat now st - now)) div ei \<and> reset = gcra_tat now st - now \<and> st' = st
     \<or> a \<and> rem = (P - (gcra_tat now st + ei * c - now)) div ei \<and> reset = gcra_tat now st + ei * c - now
        \<and> st' = Some (gcra_tat now st + ei * c) \<and> gcra_tat now st + ei * c \<le> now + P"
    using assms(1) by (auto simp add: gcra_spec_def Let_def split: if_splits)
  then show "rem \<le> P" using d by blast
  show "reset \<le> P" using cases tat by linarith
  show "\<forall>t. st' = Some t \<longrightarrow> t \<le> now + P" using cases assms(2) by auto
  have "gcra_tat now (Some x) = x" if "now \<le> x" for x using that by (simp add: gcra_tat_def)
  with cases tat show "gcra_tat now st + (if a then ei * c else 0) = gcra_tat now st'"
    and "gcra_tat now st' \<le> now + P" by auto
qed

lemma check_rate_limit_refines:
  assumes "redis_laws R" "gcra_sim R P t s m" "gcra_config (unat limit) ei P t" "as_millis period = P"
    and "0 < c" "ei * unat c \<le> 2 ^ 50"
    and spec: "gcra_spec ei P t (unat c) (m k) = (r, st')"
  shows "\<exists>s'. check_rate_limit R (env_at t) k limit period c s = (result_of r, s')
      \<and> gcra_sim R P t s' (m(k := st'))"
proof -
  obtain a rem reset where r: "r = (a, rem, reset)" by (cases r)
  have st: "gcra_rel R k t s (m k)" "\<forall>u. m k = Some u \<longrightarrow> u \<le> t + P"
    using assms(2) by (simp_all add: gcra_sim_def)
  have P: "P \<le> 2 ^ 50" "t \<le> 2 ^ 50" using assms(3) by (simp_all add: gcra_config_def)
  have "0 < unat c" using assms(5) by (simp add: unat_gt_0 word_neq_0_conv)
  then obtain s' where s': "gcra_script R t k (f64_of_nat (unat limit)) (f64_of_nat P) (f64_of_nat t) (f64_of_nat (unat c)) s
      = Some ((if a then 1 else 0, of_nat rem, of_nat reset), s')"
    "gcra_rel R k t s' st'" "\<forall>t' k'. k' \<noteq> k \<longrightarrow> redis_get R s' t' k' = redis_get R s t' k'"
    using gcra_script_refines [OF assms(1) st(1) assms(3) _ assms(6) st(2) spec [unfolded r]] by blast
  note b = gcra_spec_bounds [OF spec [unfolded r] st(2)]
  have "sint (of_nat reset :: i64) = int reset"
    using b(1) P by (simp add: signed_of_nat signed_take_bit_int_eq_self_iff)
  moreover have "unat (of_nat t :: u64) = t" "unat (of_nat P :: u64) = P"
    using P by (simp_all add: unat_of_nat_small)
  ultimately have "check_rate_limit R (env_at t) k limit period c s = (result_of r, s')"
    using s'(1) assms(4) by (simp add: check_rate_limit_def env_at_def f64_of_u64_def result_of_def r)
  moreover have "gcra_sim R P t s' (m(k := st'))"
    using assms(2) s'(2,3) b(3) by (auto simp: gcra_sim_def gcra_rel_def)
  ultimately show ?thesis by blast
qed

lemma gcra_config_later: "gcra_config L ei P t \<Longrightarrow> t \<le> t' \<Longrightarrow> t' \<le> 2 ^ 50 \<Longrightarrow> gcra_config L ei P t'"
  by (simp add: gcra_config_def)

lemma gcra_sim_fresh: "(\<And>t k. redis_get R s t k = None) \<Longrightarrow> gcra_sim R P t0 s (\<lambda>_. None)"
  by (simp add: gcra_sim_def gcra_rel_def)

section \<open>Admission over a window\<close>

fun last_time :: "nat \<Rightarrow> request list \<Rightarrow> nat" where
  "last_time t0 [] = t0"
| "last_time t0 ((k, t, c) # rs) = last_time t rs"

definition tats_ok :: "nat \<Rightarrow> nat \<Rightarrow> (string \<Rightarrow> nat option) \<Rightarrow> bool" where
  "tats_ok P now m \<longleftrightarrow> (\<forall>k t. m k = Some t \<longrightarrow> t \<le> now + P)"

lemma tats_ok_step:
  assumes "tats_ok P t0 m" "t0 \<le> t" "gcra_spec ei P t c (m k) = (r, st')"
  shows "tats_ok P t m" "tats_ok P t (m(k := st'))"
proof -
  show ok: "tats_ok P t m" using assms(1,2) by (fastforce simp: tats_ok_def)
  obtain a rem reset where "r = (a, rem, reset)" by (cases r)
  with gcra_spec_bounds(3) [of ei P t c "m k"] assms(3) ok have "\<forall>u. st' = Some u \<longrightarrow> u \<le> t + P"
    unfolding tats_ok_def by blast
  with ok show "tats_ok P t (m(k := st'))" by (simp add: tats_ok_def)
qed

lemma requests_ok_append:
  "requests_ok ei t0 (xs @ ys) \<longleftrightarrow> requests_ok ei t0 xs \<and> requests_ok ei (last_time t0 xs) ys"
  by (induction xs arbitrary: t0) auto

lemma spec_run_append:
  "fst (spec_run ei P (xs @ ys) m) = fst (spec_run ei P xs m) @ fst (spec_run ei P ys (snd (spec_run ei P xs m)))"
  by (induction xs arbitrary: m) (auto simp: split_beta)

lemma length_spec_run: "length (fst (spec_run ei P rs m)) = length rs"
  by (induction rs arbitrary: m) (auto simp: split_beta)

lemma spec_run_tats_ok:
  "requests_ok ei t0 rs \<Longrightarrow> tats_ok P t0 m \<Longrightarrow> tats_ok P (last_time t0 rs) (snd (spec_run ei P rs m))"
proof (induction rs arbitrary: t0 m)
  case (Cons q rs)
  obtain k t c where q: "q = (k, t, c)" by (cases q)
  obtain r st' where r: "gcra_spec ei P t (unat c) (m k) = (r, st')" by fastforce
  have "t0 \<le> t" using Cons.prems(1) by (simp add: q)
  from Cons.IH [OF _ tats_ok_step(2) [OF Cons.prems(2) this r]] Cons.prems(1) show ?case
    by (simp add: q r split_beta del: fun_upd_apply)
qed simp

text \<open>Each admitted unit of cost moves the arrival time by \<open>ei\<close>, and it never runs ahead by more than \<open>P\<close>.\<close>

lemma spec_run_admitted:
  assumes "requests_ok ei t0 rs" "tats_ok P t0 m"
  shows "ei * admitted_cost k rs (map result_of (fst (spec_run ei P rs m))) + gcra_tat t0 (m k) \<le> last_time t0 rs + P"
  using assms
proof (induction rs arbitrary: t0 m)
  case Nil
  then show ?case by (auto simp: gcra_tat_def tats_ok_def split: option.splits)
next
  case (Cons q rs)
  obtain k' t c where q: "q = (k', t, c)" by (cases q)
  obtain a rem reset st' where r: "gcra_spec ei P t (unat c) (m k') = ((a, rem, reset), st')"
    by (metis surj_pair)
  have t: "t0 \<le> t" "requests_ok ei t rs" using Cons.prems(1) by (simp_all add: q)
  note ok = tats_ok_step [OF Cons.prems(2) t(1) r]
  define m' where "m' = m(k' := st')"
  have "gcra_tat t (m k') + (if a then ei * unat c else 0) = gcra_tat t st'"
    using gcra_spec_bounds(4) [OF r] ok(1) by (simp add: tats_ok_def)
  then have "gcra_tat t (m k) + ei * (if k' = k \<and> a then unat c else 0) \<le> gcra_tat t (m' k)"
    by (auto simp: m'_def split: if_splits)
  moreover have "gcra_tat t0 (m k) \<le> gcra_tat t (m k)" using t(1) by (auto simp: gcra_tat_def split: option.splits)
  moreover have "admitted_cost k (q # rs) (map result_of (fst (spec_run ei P (q # rs) m)))
      = (if k' = k \<and> a then unat c else 0) + admitted_cost k rs (map result_of (fst (spec_run ei P rs m')))"
    using r by (simp add: q split_beta result_of_def m'_def del: fun_upd_apply)
  moreover note Cons.IH [OF t(2) ok(2), folded m'_def]
  ultimately show ?case by (simp only: q last_time.simps distrib_left)
qed

lemma store_run_append:
  "fst (store_run check limit period (xs @ ys) s)
     = fst (store_run check limit period xs s) @ fst (store_run check limit period ys (snd (store_run check limit period xs s)))"
  "snd (store_run check limit period (xs @ ys) s) = snd (store_run check limit period ys (snd (store_run check limit period xs s)))"
  by (induction xs arbitrary: s) (auto simp: split_paired_all split_beta)

section \<open>The contract of a rate store\<close>

text \<open>
  A store that keeps the arrival times of the integer algorithm: \<open>sim P now s m\<close> says that from \<open>now\<close> on the
  store \<open>s\<close> stands for the arrival times \<open>m\<close>. What a client of the trait can rely on follows from the two
  laws: the answers over any run, and the bound on what is admitted in any stretch of it.
\<close>

locale gcra_store =
  fixes check :: "'s rate_check" and sim :: "nat \<Rightarrow> nat \<Rightarrow> 's \<Rightarrow> (string \<Rightarrow> nat option) \<Rightarrow> bool"
  assumes sim_later: "sim P now s m \<Longrightarrow> now \<le> now' \<Longrightarrow> sim P now' s m"
    and check_refines: "sim P t s m \<Longrightarrow> gcra_config (unat limit) ei P t \<Longrightarrow> as_millis period = P \<Longrightarrow> 0 < c \<Longrightarrow>
      ei * unat c \<le> 2 ^ 50 \<Longrightarrow> gcra_spec ei P t (unat c) (m k) = (r, st') \<Longrightarrow>
      \<exists>s'. check t k limit period c s = (result_of r, s') \<and> sim P t s' (m(k := st'))"
begin

lemma run_refines:
  assumes "sim P t0 s m" "gcra_config (unat limit) ei P t0" "as_millis period = P" "requests_ok ei t0 rs"
  shows "fst (store_run check limit period rs s) = map result_of (fst (spec_run ei P rs m))"
  using assms
proof (induction rs arbitrary: t0 s m)
  case (Cons q rs)
  obtain k t c where q: "q = (k, t, c)" by (cases q)
  obtain r st' where r: "gcra_spec ei P t (unat c) (m k) = (r, st')" by fastforce
  have t: "t0 \<le> t" "t \<le> 2 ^ 50" "0 < c" "ei * unat c \<le> 2 ^ 50" "requests_ok ei t rs"
    using Cons.prems(4) by (simp_all add: q)
  note sim = sim_later [OF Cons.prems(1) t(1)] and cfg = gcra_config_later [OF Cons.prems(2) t(1,2)]
  obtain s' where s': "check t k limit period c s = (result_of r, s')" "sim P t s' (m(k := st'))"
    using check_refines [OF sim cfg Cons.prems(3) t(3,4) r] by blast
  show ?case
    using Cons.IH [OF s'(2) cfg Cons.prems(3) t(5)] s'(1) by (simp add: q r split_beta del: fun_upd_apply)
qed simp

lemma run_window:
  assumes "sim P t0 s (\<lambda>_. None)" "gcra_config (unat limit) ei P t0" "as_millis period = P"
    and "requests_ok ei t0 (before @ (k1, t1, c1) # window)"
  shows "ei * admitted_cost k ((k1, t1, c1) # window)
            (drop (length before) (fst (store_run check limit period (before @ (k1, t1, c1) # window) s)))
          + t1 \<le> last_time t1 window + P"
proof -
  let ?m = "snd (spec_run ei P before (\<lambda>_. None))"
  have ok: "requests_ok ei t0 before" "requests_ok ei (last_time t0 before) ((k1, t1, c1) # window)"
    using assms(4) by (simp_all add: requests_ok_append)
  have "tats_ok P t0 (\<lambda>_. None)" by (simp add: tats_ok_def)
  then have "tats_ok P (last_time t0 before) ?m" by (rule spec_run_tats_ok [OF ok(1)])
  then have "tats_ok P t1 ?m" using ok(2) by (fastforce simp: tats_ok_def)
  moreover have "requests_ok ei t1 ((k1, t1, c1) # window)" using ok(2) by simp
  ultimately have "ei * admitted_cost k ((k1, t1, c1) # window)
      (map result_of (fst (spec_run ei P ((k1, t1, c1) # window) ?m))) + gcra_tat t1 (?m k) \<le> last_time t1 window + P"
    using spec_run_admitted [of ei t1 "(k1, t1, c1) # window" P ?m k] by simp
  moreover have "t1 \<le> gcra_tat t1 (?m k)" by (simp add: gcra_tat_def)
  moreover have "drop (length before) (fst (store_run check limit period (before @ (k1, t1, c1) # window) s))
      = map result_of (fst (spec_run ei P ((k1, t1, c1) # window) ?m))"
    using run_refines [OF assms] by (simp only: spec_run_append map_append) (simp add: length_spec_run del: spec_run.simps)
  ultimately show ?thesis by simp
qed

end

text \<open>The store of the proxy keeps the contract on every Redis with the documented behaviour.\<close>

lemma redis_gcra_store: "redis_laws R \<Longrightarrow> gcra_store (\<lambda>t. check_rate_limit R (env_at t)) (gcra_sim R)"
  by unfold_locales (erule (1) gcra_sim_later, rule check_rate_limit_refines)

section \<open>Properties of the rate limiter\<close>

text \<open>A reference Redis: a map with expiry times, whole numbers printed in decimal.\<close>

type_synonym redis_map = "string \<Rightarrow> (string \<times> nat) option"

definition map_redis :: "redis_map Redis" where
  "map_redis = \<lparr>
     redis_get = (\<lambda>s t k. case s k of Some (v, e) \<Rightarrow> if t \<le> e then Some v else None | None \<Rightarrow> None),
     redis_set_px = (\<lambda>s t k v px. case parse_u64 px of
        Some p \<Rightarrow> if p = 0 then None else Some (s(k \<mapsto> (v, t + unat p))) | None \<Rightarrow> None),
     lua_tonumber = (\<lambda>v. map_option f64_of_u64 (parse_u64 v)),
     lua_tostring = (\<lambda>x. case view x of Fin False a \<Rightarrow> show_nat (a div one_u) | _ \<Rightarrow> ''nan'')\<rparr>"

lemma map_redis_tostring: "n \<le> 2 ^ 53 \<Longrightarrow> lua_tostring map_redis (f64_of_nat n) = show_nat n"
  by (simp add: map_redis_def view_simps)

lemma map_redis_laws: "redis_laws map_redis"
proof -
  have p: "parse_u64 (show_nat n) = Some (of_nat n)" if "n \<le> 2 ^ 53" for n
    using that by (intro parse_u64_show) simp
  have u: "unat (of_nat n :: u64) = n" if "n \<le> 2 ^ 53" for n using that by (simp add: unat_of_nat_small)
  have "lua_tonumber map_redis (lua_tostring map_redis (f64_of_nat n)) = Some (f64_of_nat n)" if "n \<le> 2 ^ 53" for n
    using p [OF that] u [OF that] map_redis_tostring [OF that] by (simp add: map_redis_def f64_of_u64_def)
  moreover have "redis_set_px map_redis s t k v (lua_tostring map_redis (f64_of_nat n))
      = (if n = 0 then None else Some (s(k \<mapsto> (v, t + n))))" if "n \<le> 2 ^ 53" for s t k v n
    using p [OF that] u [OF that] unfolding map_redis_tostring [OF that]
    by (auto simp: map_redis_def simp flip: unat_eq_zero)
  ultimately show ?thesis by (auto simp: redis_laws_def) (auto simp: map_redis_def)
qed

interpretation map_store: gcra_store "\<lambda>t. check_rate_limit map_redis (env_at t)" "gcra_sim map_redis"
  by (rule redis_gcra_store [OF map_redis_laws])

text \<open>
  C2. Refinement. On a store with the documented behaviour of Redis, any run of checks over any keys,
  with positive costs and times that do not decrease, answers exactly what the integer GCRA answers
  for each key alone: admission, tokens left and reset time are those of \<open>gcra_spec\<close>, in spite of the
  floating-point arithmetic of the script and of key expiry.
\<close>

theorem rate_limit_refines_gcra:
  assumes "redis_laws R" "\<And>t k. redis_get R s t k = None"
    and "gcra_config (unat limit) ei P t0" "as_millis period = P" "requests_ok ei t0 rs"
  shows "fst (check_run R limit period rs s) = map result_of (fst (spec_run ei P rs (\<lambda>_. None)))"
  using gcra_store.run_refines [OF redis_gcra_store [OF assms(1)] gcra_sim_fresh [OF assms(2)] assms(3-5)] .

definition proxy_requests :: "request list" where
  "proxy_requests = [(''a'', 1700000000000, 600), (''b'', 1700000000001, 1), (''a'', 1700000000002, 500),
     (''a'', 1700000030000, 500)]"

lemma map_redis_empty: "redis_get map_redis Map.empty t k = None"
  by (simp add: map_redis_def)

lemma proxy_config: "gcra_config (unat (1000 :: u64)) 60 60000 1700000000000"
  by (simp add: gcra_config_def)

lemma proxy_period: "as_millis (from_secs 60) = 60000"
  by (simp add: as_millis_def from_secs_def)

lemma proxy_requests_ok: "requests_ok 60 1700000000000 proxy_requests"
  by (simp add: proxy_requests_def)

lemma proxy_spec_run:
  "fst (spec_run 60 60000 proxy_requests (\<lambda>_. None))
     = [(True, 400, 36000), (True, 999, 60), (False, 400, 35998), (True, 400, 36000)]"
  by (simp add: proxy_requests_def gcra_spec_def gcra_tat_def)

theorem rate_limit_refines_gcra_witness:
  "fst (check_run map_redis 1000 (from_secs 60) proxy_requests Map.empty)
     = map result_of [(True, 400, 36000), (True, 999, 60), (False, 400, 35998), (True, 400, 36000)]"
  using rate_limit_refines_gcra [OF map_redis_laws map_redis_empty proxy_config proxy_period proxy_requests_ok]
  by (simp only: proxy_spec_run)

text \<open>
  C3. Safety of the limit. In any stretch of a run, from the first to the last request of the stretch,
  the cost admitted for one key times the emission interval is at most the period plus the time
  elapsed: a client never gets more than the burst plus what the refill rate allows.
\<close>

theorem rate_limit_window_bound:
  assumes "redis_laws R" "\<And>t k. redis_get R s t k = None"
    and "gcra_config (unat limit) ei P t0" "as_millis period = P"
    and "requests_ok ei t0 (before @ (k1, t1, c1) # window)"
  shows "ei * admitted_cost k ((k1, t1, c1) # window)
            (drop (length before) (fst (check_run R limit period (before @ (k1, t1, c1) # window) s)))
          + t1 \<le> last_time t1 window + P"
  using gcra_store.run_window [OF redis_gcra_store [OF assms(1)] gcra_sim_fresh [OF assms(2)] assms(3-5)] .

theorem rate_limit_window_bound_witness:
  "60 * admitted_cost ''a'' proxy_requests (fst (check_run map_redis 1000 (from_secs 60) proxy_requests Map.empty))
     + 1700000000000 \<le> 1700000030000 + 60000"
  using rate_limit_window_bound [of map_redis Map.empty 1000 60 60000 1700000000000 "from_secs 60" "[]"
      "''a''" 1700000000000 600 "tl proxy_requests" "''a''",
      OF map_redis_laws map_redis_empty proxy_config proxy_period] proxy_requests_ok
  by (simp add: proxy_requests_def del: store_run.simps)

text \<open>
  A key with no history has a full bucket: a positive cost is admitted at once exactly when it is
  at most the limit, the tokens left are the limit less the cost, and the bucket is full again after
  the time it takes to earn the cost back. A request dearer than the limit is never admitted.
\<close>

lemma fresh_key_burst:
  assumes "redis_laws R" "\<And>t k. redis_get R s t k = None"
    and "gcra_config (unat limit) ei P t" "as_millis period = P" "0 < c" "ei * unat c \<le> 2 ^ 50"
  shows "fst (check_rate_limit R (env_at t) key limit period c s)
      = (if c \<le> limit
         then Inr \<lparr>allowed = True, remaining = limit - c, reset_after = from_millis (ei * unat c)\<rparr>
         else Inr \<lparr>allowed = False, remaining = limit, reset_after = 0\<rparr>)"
proof -
  have ei: "0 < ei" "P = ei * unat limit" using assms(3) by (auto simp: gcra_config_def intro: gr0I)
  have "fst (check_rate_limit R (env_at t) key limit period c s) = result_of (fst (gcra_spec ei P t (unat c) None))"
    using check_rate_limit_refines [OF assms(1) gcra_sim_fresh [OF assms(2)] assms(3-6) prod.collapse [symmetric], of key]
    by auto
  moreover have "(P - ei * unat c) div ei = unat limit - unat c"
    using ei by (simp flip: diff_mult_distrib2)
  ultimately show ?thesis
    using ei by (simp add: gcra_spec_def gcra_tat_def result_of_def Let_def from_millis_def word_le_nat_alt)
qed

text \<open>
  A check by a proxy whose clock does not agree with that of the server, nor with those of other proxies.
\<close>

definition env_skewed :: "nat \<Rightarrow> nat \<Rightarrow> rate_env" where
  "env_skewed u t = \<lparr>pool_ok = True, clock_ms = Some t, server_ms = u, delivery = Delivered\<rparr>"

lemma check_skewed:
  assumes "gcra_config (unat limit) ei P t" "as_millis period = P" "0 < c" "ei * unat c \<le> 2 ^ 50" "t \<le> tat" "tat \<le> t + P"
    and "(case redis_get R s u key of None \<Rightarrow> Some (f64_of_nat t) | Some v \<Rightarrow> lua_tonumber R v) = Some tat0"
    and "lua_max tat0 (f64_of_nat t) = f64_of_nat tat" and laws: "redis_laws R"
  shows "\<exists>r s'. check_rate_limit R (env_skewed u t) key limit period c s = (Inr r, s')
    \<and> (allowed r \<longleftrightarrow> tat + ei * unat c \<le> t + P)
    \<and> (allowed r \<longrightarrow> redis_get R s' u key = Some (lua_tostring R (f64_of_nat (tat + ei * unat c))))"
proof -
  have P: "P \<le> 2 ^ 50" "t \<le> 2 ^ 50" "0 < ei" using assms(1) by (auto simp: gcra_config_def intro: gr0I)
  have c: "0 < unat c" using assms(3) by (simp add: unat_gt_0 word_neq_0_conv)
  have u: "unat (of_nat t :: u64) = t" "unat (of_nat P :: u64) = P" using P by (simp_all add: unat_of_nat_small)
  note run = gcra_script_exact [OF assms(1) c assms(4-8)]
  have "0 < ei * unat c" using P(3) c by simp
  then have "0 < tat + ei * unat c - t" using assms(5) by linarith
  moreover have "tat + ei * unat c - t \<le> 2 ^ 53" using P assms(4,6) by simp
  ultimately obtain s' where
    "redis_set_px R s u key (lua_tostring R (f64_of_nat (tat + ei * unat c))) (lua_tostring R (f64_of_nat (tat + ei * unat c - t))) = Some s'"
    "redis_get R s' u key = Some (lua_tostring R (f64_of_nat (tat + ei * unat c)))"
    using laws unfolding redis_laws_def by (metis less_add_same_cancel1 order_refl)
  with run assms(2) show ?thesis by (auto simp: check_rate_limit_def env_skewed_def u f64_of_u64_def)
qed

text \<open>
  C5. The limit depends on the clocks of the proxies agreeing. The script takes the time from the proxy that
  calls it. When one proxy has admitted a full burst for a key, a second proxy whose clock is ahead by \<open>skew\<close>
  milliseconds, at most a period, admits at that very instant every further cost that it takes no more than
  the skew to earn, and nothing beyond: the fleet lets through up to \<open>skew / ei\<close> more than the limit in no
  time at all, and exactly nothing more when the clocks agree.
\<close>

theorem clock_skew_extends_limit:
  assumes "redis_laws R" "redis_get R s u key = None" "gcra_config (unat limit) ei P t" "as_millis period = P"
    and "skew \<le> P" "t + skew \<le> 2 ^ 50" "0 < limit" "0 < c" "ei * unat c \<le> 2 ^ 50"
  shows "\<exists>r s1 r' s2. check_rate_limit R (env_skewed u t) key limit period limit s = (Inr r, s1) \<and> allowed r
    \<and> check_rate_limit R (env_skewed u (t + skew)) key limit period c s1 = (Inr r', s2)
    \<and> (allowed r' \<longleftrightarrow> ei * unat c \<le> skew)"
proof -
  have P: "P = ei * unat limit" "P \<le> 2 ^ 50" "P \<le> t" "t \<le> 2 ^ 50" using assms(3) by (auto simp: gcra_config_def)
  have m: "lua_max (f64_of_nat t) (f64_of_nat t) = f64_of_nat t" using P by (simp add: lua_max_of_nat)
  from check_skewed [of limit ei P t period limit t R s u key "f64_of_nat t", OF assms(3,4,7) _ _ _ _ m assms(1)] assms(2) P
  obtain r s1 where r: "check_rate_limit R (env_skewed u t) key limit period limit s = (Inr r, s1)" "allowed r"
    "redis_get R s1 u key = Some (lua_tostring R (f64_of_nat (t + P)))" by auto
  have "lua_tonumber R (lua_tostring R (f64_of_nat (t + P))) = Some (f64_of_nat (t + P))"
    using assms(1) P(2,4) by (simp add: redis_laws_def)
  moreover have "lua_max (f64_of_nat (t + P)) (f64_of_nat (t + skew)) = f64_of_nat (t + P)"
    using assms(5,6) P by (simp add: lua_max_of_nat max_def)
  moreover have "gcra_config (unat limit) ei P (t + skew)" using gcra_config_later [OF assms(3)] assms(6) by simp
  ultimately obtain r' s2 where "check_rate_limit R (env_skewed u (t + skew)) key limit period c s1 = (Inr r', s2)"
    "allowed r' \<longleftrightarrow> t + P + ei * unat c \<le> t + skew + P"
    using check_skewed [of limit ei P "t + skew" period c "t + P" R s1 u key "f64_of_nat (t + P)"] r(3) assms by auto
  with r(1,2) show ?thesis by auto
qed

theorem clock_skew_extends_limit_witness:
  "\<exists>r s1 r' s2. check_rate_limit map_redis (env_skewed 5 1700000000000) ''ip:10.0.0.1'' 1000 (from_secs 60) 1000 Map.empty = (Inr r, s1)
     \<and> allowed r \<and> check_rate_limit map_redis (env_skewed 5 1700000030000) ''ip:10.0.0.1'' 1000 (from_secs 60) 500 s1 = (Inr r', s2)
     \<and> allowed r'"
  using clock_skew_extends_limit [OF map_redis_laws map_redis_empty proxy_config proxy_period, of 30000 500 5 "''ip:10.0.0.1''"]
  by auto

text \<open>
  A check of cost zero on a key with no live entry makes the script ask for an expiry of zero,
  which Redis refuses: the check ends in an error and the store does not change.
\<close>

lemma zero_cost_check:
  assumes "redis_laws R" "redis_get R s t key = None"
    and "gcra_config (unat limit) ei P t" "as_millis period = P"
  shows "check_rate_limit R (env_at t) key limit period 0 s = (Inl RedisError, s)"
proof -
  have b: "P \<le> 2 ^ 50" "t \<le> 2 ^ 50" "P \<le> t" and ei: "0 < ei" "0 < unat limit" "P = ei * unat limit"
    using assms(3) by (auto simp: gcra_config_def intro: gr0I)
  have "unat limit \<le> P" "ei \<le> P" using ei by simp_all
  moreover from this b(1) have "unat limit \<le> 2 ^ 53" "P \<le> 2 ^ 53" by simp_all
  ultimately have "f64_div (f64_of_nat P) (f64_of_nat (unat limit)) = f64_of_nat ei"
    using f64_div_of_nat [of ei "unat limit"] ei b by simp
  then have "gcra_script R t key (f64_of_nat (unat limit)) (f64_of_nat P) (f64_of_nat t) (f64_of_nat 0) s = None"
    using b \<open>ei \<le> P\<close> assms(1,2)
    by (simp add: gcra_script_def Let_def lua_max_of_nat f64_mul_of_nat f64_add_of_nat f64_sub_of_nat f64_gt_of_nat
        f64_ceil_of_nat redis_laws_def)
  moreover have "unat (of_nat t :: u64) = t" "unat (of_nat P :: u64) = P"
    using b by (simp_all add: unat_of_nat_small)
  ultimately show ?thesis using assms(4) by (simp add: check_rate_limit_def env_at_def f64_of_u64_def)
qed

end
