(* ===== verification/Ban_Manager.thy ===== *)
theory Ban_Manager
  imports Xdp Rate_Limit
begin

text \<open>
  \<open>vortex-proxy/src/ban_manager.rs\<close>: bans at the kernel with a cooldown. Instants are nanoseconds on
  one clock. \<open>sweep\<close> is one tick of the background task, in any order in which \<open>DashMap::retain\<close> visits
  the entries; \<open>ban_step\<close> interleaves the two halves of \<open>ban_ip\<close> of many requests with the visits of
  the sweeper. The proofs use the limiter through the contract of \<open>Xdp\<close> only.
\<close>

section \<open>State and operations\<close>

type_synonym Instant = nat

record 's BanManager =
  limiter :: "'s option"
  banned_ips :: "IpAddr \<Rightarrow> Instant option"

definition ban_manager_new :: "'s option \<Rightarrow> 's BanManager" where
  "ban_manager_new l = \<lparr>limiter = l, banned_ips = Map.empty\<rparr>"

definition ban_ip :: "'s XdpRateLimiter \<Rightarrow> Instant \<Rightarrow> IpAddr \<Rightarrow> Duration \<Rightarrow> 's BanManager \<Rightarrow> 's BanManager" where
  "ban_ip L now ip duration bm = (case limiter bm of
       None \<Rightarrow> bm
     | Some s \<Rightarrow> (case block_ip L s ip of
           (Inl e, s') \<Rightarrow> bm\<lparr>limiter := Some s'\<rparr>
         | (Inr _, s') \<Rightarrow> bm\<lparr>limiter := Some s', banned_ips := (banned_ips bm)(ip \<mapsto> now + duration)\<rparr>))"

text \<open>
  The two halves of \<open>ban_ip\<close>, between which other tasks run: the kernel's block, with whether the expiry is to
  be written, and the insertion of the expiry.
\<close>

definition ban_block :: "'s XdpRateLimiter \<Rightarrow> IpAddr \<Rightarrow> 's BanManager \<Rightarrow> bool \<times> 's BanManager" where
  "ban_block L ip bm = (case limiter bm of
       None \<Rightarrow> (False, bm)
     | Some s \<Rightarrow> (case block_ip L s ip of
           (Inl e, s') \<Rightarrow> (False, bm\<lparr>limiter := Some s'\<rparr>)
         | (Inr _, s') \<Rightarrow> (True, bm\<lparr>limiter := Some s'\<rparr>)))"

definition ban_record :: "Instant \<Rightarrow> IpAddr \<Rightarrow> Duration \<Rightarrow> 's BanManager \<Rightarrow> 's BanManager" where
  "ban_record now ip duration bm = bm\<lparr>banned_ips := (banned_ips bm)(ip \<mapsto> now + duration)\<rparr>"

lemma ban_ip_halves:
  "ban_ip L now ip d bm = (let (blocked, bm') = ban_block L ip bm in if blocked then ban_record now ip d bm' else bm')"
  by (simp add: ban_ip_def ban_block_def ban_record_def split: option.split prod.split sum.split)

definition is_ip_banned :: "'s XdpRateLimiter \<Rightarrow> Instant \<Rightarrow> IpAddr \<Rightarrow> 's BanManager \<Rightarrow> bool" where
  "is_ip_banned L now ip bm =
     ((case limiter bm of None \<Rightarrow> False | Some s \<Rightarrow> is_ip_blocked L s ip) \<or>
      (case banned_ips bm ip of None \<Rightarrow> False | Some exp \<Rightarrow> exp > now))"

text \<open>The closure of \<open>retain\<close> on the entry of one address.\<close>

definition retain_entry :: "'s XdpRateLimiter \<Rightarrow> Instant \<Rightarrow> 's BanManager \<Rightarrow> IpAddr \<Rightarrow> 's BanManager" where
  "retain_entry L now bm ip = (case banned_ips bm ip of
       None \<Rightarrow> bm
     | Some expiration \<Rightarrow>
         if expiration \<le> now
         then (case limiter bm of
                 None \<Rightarrow> bm\<lparr>banned_ips := (banned_ips bm)(ip := None)\<rparr>
               | Some s \<Rightarrow> (case unblock_ip L s ip of
                     (Inl e, s') \<Rightarrow> bm\<lparr>limiter := Some s'\<rparr>
                   | (Inr _, s') \<Rightarrow> bm\<lparr>limiter := Some s', banned_ips := (banned_ips bm)(ip := None)\<rparr>))
         else bm)"

definition sweep :: "'s XdpRateLimiter \<Rightarrow> Instant \<Rightarrow> IpAddr list \<Rightarrow> 's BanManager \<Rightarrow> 's BanManager" where
  "sweep L now order bm = foldl (retain_entry L now) bm order"

text \<open>The task of \<open>spawn_sweeper\<close> over some ticks, each with its time and the order of its visits.\<close>

definition spawn_sweeper :: "'s XdpRateLimiter \<Rightarrow> (Instant \<times> IpAddr list) list \<Rightarrow> 's BanManager \<Rightarrow> 's BanManager" where
  "spawn_sweeper L ticks bm =
     (if limiter bm = None then bm else foldl (\<lambda>b (now, order). sweep L now order b) bm ticks)"

definition visits :: "IpAddr list \<Rightarrow> 's BanManager \<Rightarrow> bool" where
  "visits order bm \<longleftrightarrow> distinct order \<and> set order = dom (banned_ips bm)"

definition kernel_blocks :: "'s XdpRateLimiter \<Rightarrow> 's BanManager \<Rightarrow> IpAddr \<Rightarrow> bool" where
  "kernel_blocks L bm ip = (case limiter bm of None \<Rightarrow> False | Some s \<Rightarrow> is_ip_blocked L s ip)"

section \<open>Interleaving of requests and the sweeper\<close>

text \<open>
  \<open>pending\<close> holds the bans that have blocked their address but not yet written the expiry. A visit of
  the sweeper holds the entry's shard of the map, so that it is one step with respect to insertions.
\<close>

record 's ban_sys =
  manager :: "'s BanManager"
  pending :: "(IpAddr \<times> Duration) list"

inductive ban_step :: "'s XdpRateLimiter \<Rightarrow> 's ban_sys \<Rightarrow> 's ban_sys \<Rightarrow> bool" for L where
  block_ok: "limiter (manager c) = Some s \<Longrightarrow> block_ip L s ip = (Inr (), s') \<Longrightarrow>
    ban_step L c (c\<lparr>manager := (manager c)\<lparr>limiter := Some s'\<rparr>, pending := pending c @ [(ip, d)]\<rparr>)"
| block_failed: "limiter (manager c) = Some s \<Longrightarrow> block_ip L s ip = (Inl e, s') \<Longrightarrow>
    ban_step L c (c\<lparr>manager := (manager c)\<lparr>limiter := Some s'\<rparr>\<rparr>)"
| insert_expiry: "(ip, d) \<in> set (pending c) \<Longrightarrow>
    ban_step L c (c\<lparr>manager := (manager c)\<lparr>banned_ips := (banned_ips (manager c))(ip \<mapsto> now + d)\<rparr>,
                    pending := remove1 (ip, d) (pending c)\<rparr>)"
| visit: "ban_step L c (c\<lparr>manager := retain_entry L now (manager c) ip\<rparr>)"

inductive ban_reachable :: "'s XdpRateLimiter \<Rightarrow> 's \<Rightarrow> 's ban_sys \<Rightarrow> bool" for L s0 where
  init: "ban_reachable L s0 \<lparr>manager = ban_manager_new (Some s0), pending = []\<rparr>"
| step: "ban_reachable L s0 c \<Longrightarrow> ban_step L c c' \<Longrightarrow> ban_reachable L s0 c'"

section \<open>Limiters that can unblock what they block\<close>

locale reliable_limiter = xdp_limiter +
  assumes unblock_succeeds: "is_ip_blocked L s ip \<or> \<not> covers ip \<Longrightarrow> \<exists>s'. unblock_ip L s ip = (Inr (), s')"

interpretation mock_reliable: reliable_limiter mock_xdp "\<lambda>_. True"
  by unfold_locales (simp add: mock_defs)

interpretation kernel_reliable: reliable_limiter "linux_xdp kernel_map" is_v4
  by unfold_locales
    (auto simp: linux_defs kernel_map_def is_v4_def map_of_eq_None_iff split: IpAddr.splits)

definition in_step :: "'s XdpRateLimiter \<Rightarrow> (IpAddr \<Rightarrow> bool) \<Rightarrow> 's BanManager \<Rightarrow> bool" where
  "in_step L covers bm \<longleftrightarrow>
     limiter bm \<noteq> None \<and> (\<forall>ip. kernel_blocks L bm ip \<longleftrightarrow> covers ip \<and> banned_ips bm ip \<noteq> None)"

text \<open>Every blocked address is tracked or about to be: no step leaves one that no sweep will unblock.\<close>

definition no_leak :: "'s XdpRateLimiter \<Rightarrow> 's ban_sys \<Rightarrow> bool" where
  "no_leak L c \<longleftrightarrow> (\<forall>ip. kernel_blocks L (manager c) ip \<longrightarrow>
     banned_ips (manager c) ip \<noteq> None \<or> ip \<in> fst ` set (pending c))"

lemmas ban_defs = ban_ip_def is_ip_banned_def retain_entry_def kernel_blocks_def in_step_def ban_manager_new_def

context xdp_limiter
begin

lemma in_step_ban: "in_step L covers bm \<Longrightarrow> in_step L covers (ban_ip L now ip d bm)"
  by (auto simp: ban_defs block_err split: option.splits sum.splits prod.splits if_splits dest: block_ok)

text \<open>Whatever the sweeper does, it leaves no address blocked that was not blocked before.\<close>

lemma retain_blocks_le: "kernel_blocks L (retain_entry L now bm ip) j \<Longrightarrow> kernel_blocks L bm j"
  using unblock_le [of _ ip j]
  by (auto simp: ban_defs split: option.splits sum.splits prod.splits if_splits)

lemma retain_untracks_unblocked:
  assumes "banned_ips bm ip \<noteq> None" "banned_ips (retain_entry L now bm ip) ip = None"
  shows "\<not> kernel_blocks L (retain_entry L now bm ip) ip"
  using assms by (auto simp: ban_defs split: option.splits sum.splits prod.splits if_splits dest: unblock_ok)

end

lemma retain_other: "j \<noteq> ip \<Longrightarrow> banned_ips (retain_entry L now bm ip) j = banned_ips bm j"
  by (auto simp: retain_entry_def split: option.splits sum.splits prod.splits)

lemma retain_untracked: "banned_ips bm ip = None \<Longrightarrow> retain_entry L now bm ip = bm"
  by (simp add: retain_entry_def)

lemma remove1_fst: "ip \<in> fst ` set xs \<Longrightarrow> ip \<in> fst ` set (remove1 x xs) \<or> ip = fst x"
  by (induction xs) auto

context xdp_limiter
begin

lemma no_leak_step:
  assumes "ban_step L c c'" "no_leak L c"
  shows "no_leak L c'"
  using assms(1)
proof (cases rule: ban_step.cases)
  case (block_ok s ip s' d)
  then have "j = ip \<or> is_ip_blocked L s j" if "is_ip_blocked L s' j" for j
    using block_le [of s ip j] that by simp
  with block_ok assms(2) show ?thesis by (auto simp: no_leak_def kernel_blocks_def)
next
  case (block_failed s ip e s')
  with assms(2) show ?thesis by (auto simp: no_leak_def kernel_blocks_def block_err)
next
  case (insert_expiry ip d now)
  show ?thesis
    unfolding no_leak_def
  proof (intro allI impI)
    fix j
    assume "kernel_blocks L (manager c') j"
    then have "kernel_blocks L (manager c) j" by (simp add: insert_expiry(1) kernel_blocks_def)
    then have "banned_ips (manager c) j \<noteq> None \<or> j \<in> fst ` set (pending c)"
      using assms(2) by (simp add: no_leak_def)
    then show "banned_ips (manager c') j \<noteq> None \<or> j \<in> fst ` set (pending c')"
      using remove1_fst [of j "pending c" "(ip, d)"]
      by (cases "j = ip"; cases "banned_ips (manager c) j = None") (simp_all add: insert_expiry(1))
  qed
next
  case (visit now ip)
  show ?thesis
    unfolding no_leak_def
  proof (intro allI impI)
    fix j
    assume b: "kernel_blocks L (manager c') j"
    then have j: "banned_ips (manager c) j \<noteq> None \<or> j \<in> fst ` set (pending c)"
      using retain_blocks_le [of now "manager c" ip j] assms(2) by (simp add: visit no_leak_def)
    show "banned_ips (manager c') j \<noteq> None \<or> j \<in> fst ` set (pending c')"
      using j b retain_untracks_unblocked [of "manager c" ip now] retain_other [of j ip L now "manager c"]
        retain_untracked [of "manager c" ip L now]
      by (cases "j = ip") (auto simp: visit)
  qed
qed

lemma no_leak_reachable:
  assumes "ban_reachable L s0 c" "\<And>ip. \<not> is_ip_blocked L s0 ip"
  shows "no_leak L c"
  using assms
proof (induction rule: ban_reachable.induct)
  case init
  then show ?case by (simp add: no_leak_def ban_defs)
next
  case (step c c')
  then show ?case using no_leak_step by blast
qed

end

context reliable_limiter
begin

lemma retain_reliable:
  assumes "in_step L covers bm"
  shows "in_step L covers (retain_entry L now bm ip)"
    and "banned_ips (retain_entry L now bm ip) ip
      = (case banned_ips bm ip of Some e \<Rightarrow> if now < e then Some e else None | None \<Rightarrow> None)"
proof -
  obtain s where s: "limiter bm = Some s" using assms by (auto simp: in_step_def)
  have "\<exists>s'. unblock_ip L s ip = (Inr (), s')" if "banned_ips bm ip \<noteq> None"
    using assms s that by (intro unblock_succeeds) (auto simp: ban_defs)
  then obtain s' where s': "banned_ips bm ip \<noteq> None \<Longrightarrow> unblock_ip L s ip = (Inr (), s')" by blast
  show "banned_ips (retain_entry L now bm ip) ip
      = (case banned_ips bm ip of Some e \<Rightarrow> if now < e then Some e else None | None \<Rightarrow> None)"
    using s s' by (auto simp: ban_defs split: option.splits)
  show "in_step L covers (retain_entry L now bm ip)"
  proof (cases "\<exists>e. banned_ips bm ip = Some e \<and> e \<le> now")
    case True
    then have u: "unblock_ip L s ip = (Inr (), s')" using s' by auto
    with True s have "retain_entry L now bm ip = bm\<lparr>limiter := Some s', banned_ips := (banned_ips bm)(ip := None)\<rparr>"
      by (auto simp: retain_entry_def)
    with assms s unblock_ok [OF u] show ?thesis by (auto simp: in_step_def kernel_blocks_def)
  next
    case False
    then have "retain_entry L now bm ip = bm" by (auto simp: retain_entry_def split: option.splits)
    with assms show ?thesis by simp
  qed
qed

lemma sweep_reliable:
  assumes "in_step L covers bm"
  shows "in_step L covers (sweep L now order bm)
    \<and> banned_ips (sweep L now order bm) j
      = (if j \<in> set order then (case banned_ips bm j of Some e \<Rightarrow> if now < e then Some e else None | None \<Rightarrow> None)
         else banned_ips bm j)"
  using assms
proof (induction order arbitrary: bm)
  case (Cons ip order)
  note r = retain_reliable [OF Cons.prems, of now ip]
  have s: "sweep L now (ip # order) bm = sweep L now order (retain_entry L now bm ip)" by (simp add: sweep_def)
  show ?case
    unfolding s using Cons.IH [OF r(1)] r(2) retain_other [of j ip L now bm]
    by (cases "j = ip") (auto split: option.splits)
qed (simp add: sweep_def)

end

section \<open>Properties\<close>

datatype ban_op = Ban Instant IpAddr Duration | Sweep Instant "IpAddr list"

definition ban_apply :: "'s XdpRateLimiter \<Rightarrow> 's BanManager \<Rightarrow> ban_op \<Rightarrow> 's BanManager" where
  "ban_apply L bm x = (case x of Ban now ip d \<Rightarrow> ban_ip L now ip d bm | Sweep now order \<Rightarrow> sweep L now order bm)"

lemma in_step_run:
  assumes "reliable_limiter L covers" "in_step L covers bm"
  shows "in_step L covers (foldl (ban_apply L) bm ops)"
  using assms(2)
proof (induction ops arbitrary: bm)
  case (Cons x ops)
  have "in_step L covers (ban_apply L bm x)"
    using Cons.prems xdp_limiter.in_step_ban [OF reliable_limiter.axioms(1) [OF assms(1)]]
      reliable_limiter.sweep_reliable [OF assms(1)]
    by (auto simp: ban_apply_def split: ban_op.splits)
  with Cons.IH show ?case by simp
qed simp

text \<open>
  C20. A sweep unbans exactly the expired. After any sequence of bans and sweeps on a limiter that can
  unblock what it blocks (both limiters of the program are such), a sweep that visits every entry
  leaves an address banned exactly when its last recorded ban has not expired, and the kernel
  blocks exactly those of them it covers.
\<close>

theorem sweep_unbans_exactly_expired:
  fixes now :: Instant and ip :: IpAddr
  assumes "reliable_limiter L covers" "\<And>j. \<not> is_ip_blocked L s0 j"
    and "visits order (foldl (ban_apply L) (ban_manager_new (Some s0)) ops)"
  defines "bm \<equiv> foldl (ban_apply L) (ban_manager_new (Some s0)) ops"
  defines "banned \<equiv> (case banned_ips bm ip of Some e \<Rightarrow> now < e | None \<Rightarrow> False)"
  shows "is_ip_banned L now ip (sweep L now order bm) = banned
    \<and> kernel_blocks L (sweep L now order bm) ip = (covers ip \<and> banned)"
proof -
  have "in_step L covers (ban_manager_new (Some s0))" using assms(2) by (simp add: ban_defs)
  then have "in_step L covers bm" unfolding bm_def by (rule in_step_run [OF assms(1)])
  note sw = reliable_limiter.sweep_reliable [OF assms(1) this, of now order ip]
  have "ip \<in> set order \<longleftrightarrow> banned_ips bm ip \<noteq> None" using assms(3) by (auto simp: visits_def bm_def dom_def)
  with sw have b: "banned_ips (sweep L now order bm) ip
      = (case banned_ips bm ip of Some e \<Rightarrow> if now < e then Some e else None | None \<Rightarrow> None)"
    by (auto split: option.splits)
  with sw have "kernel_blocks L (sweep L now order bm) ip = (covers ip \<and> banned)"
    by (auto simp: in_step_def banned_def split: option.splits)
  with b show ?thesis
    by (auto simp: is_ip_banned_def kernel_blocks_def banned_def split: option.splits)
qed

definition two_bans :: "ban_op list" where
  "two_bans = [Ban 0 (V4 203 0 113 42) 100, Ban 5 (V4 10 0 0 1) 1000]"

theorem sweep_unbans_exactly_expired_witness:
  "let bm = foldl (ban_apply (linux_xdp kernel_map)) (ban_manager_new (Some [])) two_bans;
       order = [V4 203 0 113 42, V4 10 0 0 1]
   in \<not> is_ip_banned (linux_xdp kernel_map) 100 (V4 203 0 113 42) (sweep (linux_xdp kernel_map) 100 order bm)
      \<and> kernel_blocks (linux_xdp kernel_map) (sweep (linux_xdp kernel_map) 100 order bm) (V4 10 0 0 1)"
proof -
  let ?bm = "foldl (ban_apply (linux_xdp kernel_map)) (ban_manager_new (Some [])) two_bans"
  have b: "banned_ips ?bm = [V4 203 0 113 42 \<mapsto> 100, V4 10 0 0 1 \<mapsto> 1005]"
    by (simp add: two_bans_def ban_apply_def ban_defs linux_defs kernel_map_def max_entries_def)
  have e: "\<not> is_ip_blocked (linux_xdp kernel_map) [] j" for j
    by (auto simp: linux_defs kernel_map_def split: IpAddr.splits)
  have v: "visits [V4 203 0 113 42, V4 10 0 0 1] ?bm" unfolding visits_def b by auto
  show ?thesis
    using sweep_unbans_exactly_expired [OF kernel_reliable.reliable_limiter_axioms e v, of 100 "V4 203 0 113 42"]
      sweep_unbans_exactly_expired [OF kernel_reliable.reliable_limiter_axioms e v, of 100 "V4 10 0 0 1"]
    unfolding b by (simp add: Let_def is_v4_def)
qed

text \<open>
  C18. No interleaving leaks a ban: however the halves of concurrent bans and the visits of the
  sweeper interleave, and whatever errors the limiter reports, every address the kernel blocks is
  tracked with an expiry or has a ban in progress that will track it.
\<close>

theorem ban_never_leaks:
  assumes "xdp_limiter L covers" "\<And>ip. \<not> is_ip_blocked L s0 ip" "ban_reachable L s0 c"
  shows "no_leak L c"
  using xdp_limiter.no_leak_reachable [OF assms(1,3,2)] .

text \<open>The steps of a ban that renews an expired one while the sweeper visits the entry.\<close>

definition renewed_ban :: "MockXdpLimiter ban_sys" where
  "renewed_ban = \<lparr>manager = \<lparr>limiter = Some {}, banned_ips = [V4 203 0 113 42 \<mapsto> 160]\<rparr>, pending = []\<rparr>"

lemma renewed_ban_reachable: "ban_reachable mock_xdp mock_new renewed_ban"
proof -
  let ?ip = "V4 203 0 113 42"
  let ?c1 = "\<lparr>manager = \<lparr>limiter = Some {?ip}, banned_ips = Map.empty\<rparr>, pending = [(?ip, 60)]\<rparr>"
  let ?c2 = "\<lparr>manager = \<lparr>limiter = Some {?ip}, banned_ips = [?ip \<mapsto> 60]\<rparr>, pending = []\<rparr>"
  let ?c3 = "\<lparr>manager = \<lparr>limiter = Some {?ip}, banned_ips = [?ip \<mapsto> 60]\<rparr>, pending = [(?ip, 60)]\<rparr>"
  let ?c4 = "\<lparr>manager = \<lparr>limiter = Some {}, banned_ips = Map.empty\<rparr>, pending = [(?ip, 60)]\<rparr>"
  have "ban_reachable mock_xdp mock_new \<lparr>manager = ban_manager_new (Some {}), pending = []\<rparr>"
    using ban_reachable.init [of mock_xdp mock_new] by (simp add: mock_new_def)
  then have "ban_reachable mock_xdp mock_new ?c1"
    by (rule ban_reachable.step)
      (use ban_step.block_ok [of "\<lparr>manager = ban_manager_new (Some {}), pending = []\<rparr>" "{}" mock_xdp ?ip "{?ip}" 60]
        in \<open>simp add: mock_defs ban_manager_new_def\<close>)
  then have "ban_reachable mock_xdp mock_new ?c2"
    by (rule ban_reachable.step) (use ban_step.insert_expiry [of ?ip 60 ?c1 mock_xdp 0] in simp)
  then have "ban_reachable mock_xdp mock_new ?c3"
    by (rule ban_reachable.step)
      (use ban_step.block_ok [of ?c2 "{?ip}" mock_xdp ?ip "{?ip}" 60] in \<open>simp add: mock_defs\<close>)
  then have "ban_reachable mock_xdp mock_new ?c4"
    by (rule ban_reachable.step)
      (use ban_step.visit [of mock_xdp ?c3 100 ?ip] in \<open>simp add: mock_defs retain_entry_def\<close>)
  then show ?thesis
    unfolding renewed_ban_def
    by (rule ban_reachable.step) (use ban_step.insert_expiry [of ?ip 60 ?c4 mock_xdp 100] in simp)
qed

theorem ban_never_leaks_witness: "no_leak mock_xdp renewed_ban"
  by (rule ban_never_leaks [OF mock.xdp_limiter_axioms _ renewed_ban_reachable]) (simp add: mock_defs)

text \<open>
  C40. A renewed ban can lose its kernel entry: some interleaving of one address's second ban with the
  sweeper's visit of its expired first ban ends with nothing in progress and the ban tracked as
  live until time 160, while the kernel no longer blocks the address.
\<close>

theorem renewed_ban_can_lose_kernel_block:
  "\<exists>c. ban_reachable mock_xdp mock_new c \<and> pending c = [] \<and>
     is_ip_banned mock_xdp 159 (V4 203 0 113 42) (manager c) \<and>
     \<not> kernel_blocks mock_xdp (manager c) (V4 203 0 113 42)"
proof (intro exI conjI)
  show "ban_reachable mock_xdp mock_new renewed_ban" by (rule renewed_ban_reachable)
qed (simp_all add: renewed_ban_def ban_defs mock_defs)

end
