(* ===== verification/Conn_Pool.thy ===== *)
theory Conn_Pool
  imports Backend
begin

text \<open>
  \<open>vortex-proxy/src/connection_pool/pool.rs\<close>: idle senders per backend address, in FIFO queues. A
  sender is a value of any type; whether it is closed can change at any time, so every operation
  takes the predicate \<open>closed\<close> of its moment. The locale \<open>pool_interface\<close> states what the request
  path relies on: each address hands out its own connections, each to one request at a time.
\<close>

section \<open>State and operations\<close>

type_synonym 'c ConnectionPool = "SocketAddr \<Rightarrow> 'c list option"

definition pool_new :: "'c ConnectionPool" where
  "pool_new = Map.empty"

text \<open>The loop of \<open>try_pop\<close>: senders found closed are dropped.\<close>

fun pop_open :: "('c \<Rightarrow> bool) \<Rightarrow> 'c list \<Rightarrow> 'c option \<times> 'c list" where
  "pop_open closed [] = (None, [])"
| "pop_open closed (sender # queue) =
     (if \<not> closed sender then (Some sender, queue) else pop_open closed queue)"

definition try_pop :: "('c \<Rightarrow> bool) \<Rightarrow> SocketAddr \<Rightarrow> 'c ConnectionPool \<Rightarrow> 'c option \<times> 'c ConnectionPool" where
  "try_pop closed a pool = (case pool a of
       None \<Rightarrow> (None, pool)
     | Some queue \<Rightarrow> (let (r, queue') = pop_open closed queue in (r, pool(a \<mapsto> queue'))))"

definition push :: "('c \<Rightarrow> bool) \<Rightarrow> SocketAddr \<Rightarrow> 'c \<Rightarrow> 'c ConnectionPool \<Rightarrow> 'c ConnectionPool" where
  "push closed a sender pool =
     (if closed sender then pool
      else pool(a \<mapsto> (case pool a of None \<Rightarrow> [] | Some queue \<Rightarrow> queue) @ [sender]))"

definition idle :: "'c ConnectionPool \<Rightarrow> SocketAddr \<Rightarrow> 'c list" where
  "idle pool a = (case pool a of None \<Rightarrow> [] | Some queue \<Rightarrow> queue)"

section \<open>Lemmas\<close>

lemma pop_open_split:
  "pop_open closed q = (case dropWhile closed q of [] \<Rightarrow> (None, []) | c # q' \<Rightarrow> (Some c, q'))"
  by (induction q) auto

lemma idle_try_pop:
  "idle (snd (try_pop closed a pool)) b = (if b = a then tl (dropWhile closed (idle pool a)) else idle pool b)"
  by (auto simp: try_pop_def idle_def pop_open_split simp del: dropWhile_eq_Nil_conv split: option.splits list.splits)

lemma fst_try_pop:
  "fst (try_pop closed a pool) = (case dropWhile closed (idle pool a) of [] \<Rightarrow> None | c # _ \<Rightarrow> Some c)"
  by (auto simp: try_pop_def idle_def pop_open_split simp del: dropWhile_eq_Nil_conv split: option.splits list.splits)

lemma idle_push:
  "idle (push closed a c pool) b = (if b = a \<and> \<not> closed c then idle pool a @ [c] else idle pool b)"
  by (simp add: push_def idle_def split: option.splits)

lemma idle_new [simp]: "idle pool_new a = []"
  by (simp add: pool_new_def idle_def)

section \<open>The interface the request path uses\<close>

text \<open>
  Laws on the contents of the queues only: \<open>get\<close> removes a prefix, hands out its last element unless
  everything was removed, and touches no other queue; \<open>put\<close> adds at most the given sender, at the end
  of its address's queue.
\<close>

locale pool_interface =
  fixes contents :: "'p \<Rightarrow> 'a \<Rightarrow> 'c list"
    and get :: "('c \<Rightarrow> bool) \<Rightarrow> 'a \<Rightarrow> 'p \<Rightarrow> 'c option \<times> 'p"
    and put :: "('c \<Rightarrow> bool) \<Rightarrow> 'a \<Rightarrow> 'c \<Rightarrow> 'p \<Rightarrow> 'p"
  assumes get_some: "get closed a p = (Some c, p') \<Longrightarrow>
      \<not> closed c \<and> (\<exists>dropped. contents p a = dropped @ c # contents p' a \<and> list_all closed dropped)"
    and get_none: "get closed a p = (None, p') \<Longrightarrow> list_all closed (contents p a) \<and> contents p' a = []"
    and get_other: "get closed a p = (r, p') \<Longrightarrow> b \<noteq> a \<Longrightarrow> contents p' b = contents p b"
    and put_this: "contents (put closed a c p) a = (if closed c then contents p a else contents p a @ [c])"
    and put_other: "b \<noteq> a \<Longrightarrow> contents (put closed a c p) b = contents p b"
begin

text \<open>A pool is sound when every queue holds senders of its own address, none of them twice.\<close>

definition sound :: "('c \<Rightarrow> 'a) \<Rightarrow> 'p \<Rightarrow> bool" where
  "sound owner p \<longleftrightarrow> (\<forall>a. distinct (contents p a) \<and> (\<forall>c \<in> set (contents p a). owner c = a))"

lemma sound_get:
  assumes "sound owner p" "get closed a p = (r, p')"
  shows "sound owner p'" and "r = Some c \<Longrightarrow> owner c = a \<and> (\<forall>b. c \<notin> set (contents p' b))"
proof -
  have other: "contents p' b = contents p b" if "b \<noteq> a" for b using get_other [OF assms(2) that] .
  have own: "distinct (contents p a)" "\<forall>c \<in> set (contents p a). owner c = a"
    using assms(1) by (simp_all add: sound_def)
  have some: "owner c = a \<and> c \<notin> set (contents p' a)
      \<and> distinct (contents p' a) \<and> (\<forall>c \<in> set (contents p' a). owner c = a)" if r: "r = Some c" for c
  proof -
    obtain dropped where d: "contents p a = dropped @ c # contents p' a" using get_some assms(2) r by blast
    from own show ?thesis unfolding d by simp
  qed
  have this_addr: "distinct (contents p' a) \<and> (\<forall>c \<in> set (contents p' a). owner c = a)"
    using some get_none [of closed a p p'] assms(2) by (cases r) auto
  show "sound owner p'"
    unfolding sound_def
  proof
    fix b show "distinct (contents p' b) \<and> (\<forall>c \<in> set (contents p' b). owner c = b)"
      using this_addr other [of b] assms(1) by (cases "b = a") (simp_all add: sound_def)
  qed
  show "owner c = a \<and> (\<forall>b. c \<notin> set (contents p' b))" if "r = Some c"
  proof (intro conjI allI)
    show "owner c = a" using some [OF that] by simp
    fix b show "c \<notin> set (contents p' b)"
      using some [OF that] other [of b] assms(1) by (cases "b = a") (auto simp: sound_def)
  qed
qed

lemma sound_put:
  assumes "sound owner p" "owner c = a" "c \<notin> set (contents p a)"
  shows "sound owner (put closed a c p)"
  unfolding sound_def
proof
  fix b show "distinct (contents (put closed a c p) b) \<and> (\<forall>x \<in> set (contents (put closed a c p) b). owner x = b)"
    using assms put_this [of closed a c p] put_other [of b a closed c p] by (cases "b = a") (auto simp: sound_def)
qed

end

interpretation conn_pool: pool_interface idle try_pop push
proof
  fix closed :: "'c \<Rightarrow> bool" and a p c p'
  assume g: "try_pop closed a p = (Some c, p')"
  then have "Some c = fst (try_pop closed a p)" "p' = snd (try_pop closed a p)" by simp_all
  then have d: "dropWhile closed (idle p a) = c # idle p' a"
    by (auto simp: fst_try_pop idle_try_pop split: list.splits)
  then have "idle p a = takeWhile closed (idle p a) @ c # idle p' a" by (metis takeWhile_dropWhile_id)
  moreover have "list_all closed (takeWhile closed (idle p a))" by (auto simp: list_all_iff dest: set_takeWhileD)
  moreover have "\<not> closed c" using d by (metis dropWhile_eq_Cons_conv)
  ultimately show "\<not> closed c \<and> (\<exists>dropped. idle p a = dropped @ c # idle p' a \<and> list_all closed dropped)"
    by blast
next
  fix closed :: "'c \<Rightarrow> bool" and a p p'
  assume "try_pop closed a p = (None, p')"
  then have "None = fst (try_pop closed a p)" "p' = snd (try_pop closed a p)" by simp_all
  then show "list_all closed (idle p a) \<and> idle p' a = []"
    by (cases "dropWhile closed (idle p a)")
      (auto simp: fst_try_pop idle_try_pop list_all_iff iff del: dropWhile_eq_Nil_conv dest: dropWhile_eq_Nil_conv [THEN iffD1])
next
  fix closed :: "'c \<Rightarrow> bool" and a p r p' b
  assume "try_pop closed a p = (r, p')" "b \<noteq> a"
  then show "idle p' b = idle p b" using idle_try_pop [of closed a p b] by simp
qed (simp_all add: idle_push)

section \<open>Properties\<close>

text \<open>
  C28. \<open>try_pop\<close> on every branch: it hands out the oldest idle sender of the address that is not closed,
  having discarded only closed ones before it and kept all that came after in order; it returns
  nothing exactly when every idle sender of the address is closed, and then the queue is empty;
  queues of other addresses do not change.
\<close>

theorem try_pop_oldest_open:
  "case try_pop closed a pool of
     (Some c, pool') \<Rightarrow> \<not> closed c \<and> idle pool a = takeWhile closed (idle pool a) @ c # idle pool' a
        \<and> (\<forall>b. b = a \<or> idle pool' b = idle pool b)
   | (None, pool') \<Rightarrow> takeWhile closed (idle pool a) = idle pool a \<and> idle pool' a = []
        \<and> (\<forall>b. b = a \<or> idle pool' b = idle pool b)"
proof -
  obtain r pool' where p: "try_pop closed a pool = (r, pool')" by fastforce
  note facts = conn_pool.get_some [of closed a pool _ pool'] conn_pool.get_none [of closed a pool pool']
    conn_pool.get_other [OF p]
  show ?thesis
  proof (cases r)
    case None
    with p facts show ?thesis by (auto simp: list_all_iff takeWhile_eq_all_conv)
  next
    case (Some c)
    with p facts(1) obtain dropped where d: "\<not> closed c" "idle pool a = dropped @ c # idle pool' a" "list_all closed dropped"
      by auto
    then have "takeWhile closed (idle pool a) = dropped" by (simp add: list_all_iff takeWhile_append)
    with d p Some facts(3) show ?thesis by auto
  qed
qed

datatype 'c pool_op = Pop SocketAddr | Push SocketAddr 'c

text \<open>
  A history of pops and pushes, each with the closed senders of its moment, and who holds what:
  a push must return a sender to its own address, and only one that is not in the pool, which is
  what exclusive ownership of \<open>SendRequest\<close> gives.
\<close>

fun pool_run :: "('c \<Rightarrow> SocketAddr) \<Rightarrow> 'c ConnectionPool \<Rightarrow> (('c \<Rightarrow> bool) \<times> 'c pool_op) list \<Rightarrow> 'c ConnectionPool option" where
  "pool_run owner pool [] = Some pool"
| "pool_run owner pool ((closed, Pop a) # ops) = pool_run owner (snd (try_pop closed a pool)) ops"
| "pool_run owner pool ((closed, Push a c) # ops) =
     (if owner c = a \<and> c \<notin> set (idle pool a) then pool_run owner (push closed a c pool) ops else None)"

lemma pool_run_sound: "conn_pool.sound owner pool \<Longrightarrow> pool_run owner pool ops = Some pool' \<Longrightarrow> conn_pool.sound owner pool'"
proof (induction owner pool ops rule: pool_run.induct)
  case (2 owner pool closed a ops)
  then show ?case using conn_pool.sound_get(1) [OF "2.prems"(1) prod.collapse [symmetric], of closed a] by simp
next
  case (3 owner pool closed a c ops)
  then show ?case using conn_pool.sound_put [of owner pool c a closed] by (simp split: if_splits)
qed simp

text \<open>
  Connections are never mixed up or shared: after any history of pops and pushes from an empty
  pool, in which connections close at any moment, a sender popped for an address is a connection to
  that address and is in no queue any more, so no second request can be handed it.
\<close>

lemma pool_hands_out_own_connections_once:
  assumes "pool_run owner pool_new ops = Some pool" "try_pop closed a pool = (Some c, pool')"
  shows "owner c = a \<and> \<not> closed c \<and> c \<in> set (idle pool a) \<and> (\<forall>b. c \<notin> set (idle pool' b))"
proof -
  have "conn_pool.sound owner pool_new" by (simp add: conn_pool.sound_def)
  then have "conn_pool.sound owner pool" using assms(1) by (rule pool_run_sound)
  from conn_pool.sound_get(2) [OF this assms(2)] conn_pool.get_some [OF assms(2)] show ?thesis by auto
qed

definition addr_a :: SocketAddr where
  "addr_a = SocketAddr (V4 10 0 0 1) 80"

end
