(* ===== verification/Telemetry.thy ===== *)
theory Telemetry
  imports Text Float64
begin

text \<open>
  \<open>vortex-proxy/src/telemetry.rs\<close>: the parser of the W3C \<open>traceparent\<close> header and the injection of
  trace context into outgoing headers. A \<open>HeaderMap\<close> maps lower-case names to their values in order.
  The \<open>http\<close> crate's validation of names and values and the OpenTelemetry propagator are parameters.
  \<open>init_telemetry\<close> acts on the process-wide state of the tracing libraries, \<open>Tracing\<close>; building the
  exporter pipeline is a parameter.
\<close>

section \<open>Headers\<close>

type_synonym HeaderMap = "string \<Rightarrow> string list"

definition header_get :: "HeaderMap \<Rightarrow> string \<Rightarrow> string option" where
  "header_get h name = (case h (to_lowercase name) of [] \<Rightarrow> None | v # _ \<Rightarrow> Some v)"

definition header_insert :: "HeaderMap \<Rightarrow> string \<Rightarrow> string \<Rightarrow> HeaderMap" where
  "header_insert h name v = h(to_lowercase name := [v])"

section \<open>Injection\<close>

text \<open>\<open>HeaderInjector::set\<close>: pairs with an invalid name or value are skipped.\<close>

definition injector_set :: "(string \<Rightarrow> bool) \<Rightarrow> (string \<Rightarrow> bool) \<Rightarrow> HeaderMap \<Rightarrow> string \<times> string \<Rightarrow> HeaderMap" where
  "injector_set valid_name valid_value h kv =
     (if valid_name (fst kv) then if valid_value (snd kv) then header_insert h (fst kv) (snd kv) else h else h)"

definition inject_trace_context ::
  "(string \<Rightarrow> bool) \<Rightarrow> (string \<Rightarrow> bool) \<Rightarrow> ('cx \<Rightarrow> (string \<times> string) list) \<Rightarrow> 'cx \<Rightarrow> HeaderMap \<Rightarrow> HeaderMap" where
  "inject_trace_context valid_name valid_value propagator cx headers =
     foldl (injector_set valid_name valid_value) headers (propagator cx)"

section \<open>The traceparent header\<close>

record W3CTraceParent =
  version :: string
  trace_id :: string
  parent_id :: string
  trace_flags :: string

definition parse_w3c_traceparent :: "string \<Rightarrow> W3CTraceParent option" where
  "parse_w3c_traceparent header_value = (case split_on CHR ''-'' header_value of
       v # t # p # f # rest \<Rightarrow>
         if rest \<noteq> [] then None
         else if length v \<noteq> 2 \<or> length t \<noteq> 32 \<or> length p \<noteq> 16 \<or> length f \<noteq> 2 then None
         else Some \<lparr>version = v, trace_id = t, parent_id = p, trace_flags = f\<rparr>
     | _ \<Rightarrow> None)"

definition show_traceparent :: "W3CTraceParent \<Rightarrow> string" where
  "show_traceparent tp = version tp @ ''-'' @ trace_id tp @ ''-'' @ parent_id tp @ ''-'' @ trace_flags tp"

definition traceparent_ok :: "W3CTraceParent \<Rightarrow> bool" where
  "traceparent_ok tp \<longleftrightarrow>
     length (version tp) = 2 \<and> length (trace_id tp) = 32 \<and> length (parent_id tp) = 16 \<and> length (trace_flags tp) = 2
     \<and> CHR ''-'' \<notin> set (version tp @ trace_id tp @ parent_id tp @ trace_flags tp)"

lemma show_traceparent_join:
  "show_traceparent tp = join_with CHR ''-'' [version tp, trace_id tp, parent_id tp, trace_flags tp]"
  by (simp add: show_traceparent_def)

lemma parse_iff_printed:
  "parse_w3c_traceparent s = Some tp \<longleftrightarrow> traceparent_ok tp \<and> s = show_traceparent tp"
proof
  assume p: "parse_w3c_traceparent s = Some tp"
  then obtain v t q f where sp: "split_on CHR ''-'' s = [v, t, q, f]" and
    tp: "tp = \<lparr>version = v, trace_id = t, parent_id = q, trace_flags = f\<rparr>"
    and len: "length v = 2" "length t = 32" "length q = 16" "length f = 2"
    by (auto simp: parse_w3c_traceparent_def split: list.splits if_splits)
  have "s = show_traceparent tp"
    using join_split_on [of "CHR ''-''" s] by (simp only: show_traceparent_join sp tp W3CTraceParent.simps)
  moreover have "CHR ''-'' \<notin> set v \<union> set t \<union> set q \<union> set f"
    using split_on_pieces [of _ "CHR ''-''" s] by (simp add: sp)
  ultimately show "traceparent_ok tp \<and> s = show_traceparent tp" using len by (simp add: traceparent_ok_def tp)
next
  assume ok: "traceparent_ok tp \<and> s = show_traceparent tp"
  then have "split_on CHR ''-'' s = [version tp, trace_id tp, parent_id tp, trace_flags tp]"
    unfolding show_traceparent_join by (auto simp: traceparent_ok_def simp del: join_with.simps intro!: split_on_join_with)
  with ok show "parse_w3c_traceparent s = Some tp" by (simp add: parse_w3c_traceparent_def traceparent_ok_def)
qed

section \<open>Set-up\<close>

text \<open>The pipeline \<open>init_telemetry\<close> asks the exporter library for.\<close>

record OtlpPipeline =
  otlp_endpoint :: string
  max_queue_size :: nat
  max_export_batch_size :: nat
  sample_ratio :: f64
  service_name :: string

definition otlp_pipeline :: OtlpPipeline where
  "otlp_pipeline =
     \<lparr>otlp_endpoint = ''http://localhost:4317'', max_queue_size = 8192, max_export_batch_size = 512,
      sample_ratio = f64_div (f64_of_nat 1) (f64_of_nat 100), service_name = ''vortex-proxy''\<rparr>"

record 'tr Tracing =
  propagator_set :: bool
  subscriber :: "(string \<times> 'tr) option"
  ingress_log :: "(string \<times> u16) list"

text \<open>
  \<open>install_batch\<close> may fail; \<open>rust_log\<close> is the filter of the environment, if it is set and valid; \<open>init()\<close>
  panics when a global subscriber is installed already.
\<close>

definition init_telemetry ::
  "(OtlpPipeline \<Rightarrow> string + 'tr) \<Rightarrow> string option \<Rightarrow> 'tr Tracing \<Rightarrow> ((string + unit) \<times> 'tr Tracing) outcome" where
  "init_telemetry install_batch rust_log g =
     (let g1 = g\<lparr>propagator_set := True\<rparr>
      in case install_batch otlp_pipeline of
           Inl e \<Rightarrow> Ret (Inl e, g1)
         | Inr tracer \<Rightarrow>
             (let env_filter = (case rust_log of Some f \<Rightarrow> f | None \<Rightarrow> ''info'')
              in if subscriber g1 \<noteq> None then Panic
                 else Ret (Inr (), g1\<lparr>subscriber := Some (env_filter, tracer)\<rparr>)))"

definition record_proxy_ingress_metric :: "string \<Rightarrow> u16 \<Rightarrow> 'tr Tracing \<Rightarrow> 'tr Tracing" where
  "record_proxy_ingress_metric path status_code g =
     (if subscriber g = None then g else g\<lparr>ingress_log := ingress_log g @ [(path, status_code)]\<rparr>)"

text \<open>
  Telemetry is initialised once: a second call, after one that succeeded, panics whenever the exporter
  pipeline can be built, and is an error otherwise; it never installs a second subscriber.
\<close>

lemma init_telemetry_once:
  assumes "init_telemetry install rust_log g = Ret (Inr (), g')"
  shows "subscriber g = None \<and> subscriber g' \<noteq> None \<and> propagator_set g'
    \<and> (case init_telemetry install' rust_log' g' of
         Panic \<Rightarrow> (\<exists>tr. install' otlp_pipeline = Inr tr)
       | Ret (r, g'') \<Rightarrow> (\<exists>e. r = Inl e) \<and> subscriber g'' = subscriber g')"
  using assms by (cases "subscriber g") (auto simp: init_telemetry_def Let_def split: sum.splits if_splits)

section \<open>Properties\<close>

text \<open>
  C32. The traceparent parser is exact: it accepts a header value with given fields precisely when the
  value is those fields joined by dashes and each has its prescribed length and no dash. Parsing and
  printing are inverse to each other.
\<close>

theorem traceparent_parse_iff_printed:
  "parse_w3c_traceparent s = Some tp \<longleftrightarrow> traceparent_ok tp \<and> s = show_traceparent tp"
  by (rule parse_iff_printed)

end
