(* ===== verification/Utf8.thy ===== *)
theory Utf8
  imports Prelude
begin

text \<open>
  UTF-8 as \<open>std::str::from_utf8\<close> checks it: the table of well-formed byte sequences (\<open>utf8_head\<close>) applied
  until the bytes are used up. The specification is the encoding of Unicode scalar values; the check
  accepts exactly the encodings, and an encoding can be read in one way only.
\<close>

section \<open>The check\<close>

definition cont :: "u8 \<Rightarrow> bool" where
  "cont b \<longleftrightarrow> 0x80 \<le> b \<and> b \<le> 0xBF"

text \<open>One well-formed sequence at the head of the bytes: how long it is.\<close>

fun utf8_head :: "u8 list \<Rightarrow> nat option" where
  "utf8_head (a # bs) =
     (if a < 0x80 then Some 1
      else if 0xC2 \<le> a \<and> a \<le> 0xDF then
        (case bs of b # _ \<Rightarrow> if cont b then Some 2 else None | _ \<Rightarrow> None)
      else if 0xE0 \<le> a \<and> a \<le> 0xEF then
        (case bs of b # c # _ \<Rightarrow>
           if (if a = 0xE0 then 0xA0 \<le> b \<and> b \<le> 0xBF else if a = 0xED then 0x80 \<le> b \<and> b \<le> 0x9F else cont b) \<and> cont c
           then Some 3 else None | _ \<Rightarrow> None)
      else if 0xF0 \<le> a \<and> a \<le> 0xF4 then
        (case bs of b # c # d # _ \<Rightarrow>
           if (if a = 0xF0 then 0x90 \<le> b \<and> b \<le> 0xBF else if a = 0xF4 then 0x80 \<le> b \<and> b \<le> 0x8F else cont b) \<and> cont c \<and> cont d
           then Some 4 else None | _ \<Rightarrow> None)
      else None)"
| "utf8_head [] = None"

lemma utf8_head_pos: "utf8_head bs = Some n \<Longrightarrow> 0 < n"
  by (cases bs) (auto split: if_splits list.splits)

function utf8_valid :: "u8 list \<Rightarrow> bool" where
  "utf8_valid bs = (if bs = [] then True else case utf8_head bs of None \<Rightarrow> False | Some n \<Rightarrow> utf8_valid (drop n bs))"
  by pat_completeness auto
termination
  by (relation "measure length") (auto dest: utf8_head_pos)

declare utf8_valid.simps [simp del]

section \<open>The encoding\<close>

text \<open>A \<open>char\<close> of Rust is a Unicode scalar value: a code point that is no surrogate.\<close>

definition scalar :: "nat \<Rightarrow> bool" where
  "scalar n \<longleftrightarrow> n < 0x110000 \<and> \<not> (0xD800 \<le> n \<and> n \<le> 0xDFFF)"

definition encode_nat :: "nat \<Rightarrow> nat list" where
  "encode_nat n =
     (if n < 0x80 then [n]
      else if n < 0x800 then [0xC0 + n div 64, 0x80 + n mod 64]
      else if n < 0x10000 then [0xE0 + n div 4096, 0x80 + n div 64 mod 64, 0x80 + n mod 64]
      else [0xF0 + n div 262144, 0x80 + n div 4096 mod 64, 0x80 + n div 64 mod 64, 0x80 + n mod 64])"

definition utf8_encode :: "nat \<Rightarrow> u8 list" where
  "utf8_encode n = map of_nat (encode_nat n)"

text \<open>The same table on the values of the bytes.\<close>

fun head_nat :: "nat list \<Rightarrow> nat option" where
  "head_nat (a # bs) =
     (if a < 0x80 then Some 1
      else if 0xC2 \<le> a \<and> a \<le> 0xDF then
        (case bs of b # _ \<Rightarrow> if 0x80 \<le> b \<and> b \<le> 0xBF then Some 2 else None | _ \<Rightarrow> None)
      else if 0xE0 \<le> a \<and> a \<le> 0xEF then
        (case bs of b # c # _ \<Rightarrow>
           if (if a = 0xE0 then 0xA0 \<le> b \<and> b \<le> 0xBF else if a = 0xED then 0x80 \<le> b \<and> b \<le> 0x9F else 0x80 \<le> b \<and> b \<le> 0xBF)
             \<and> 0x80 \<le> c \<and> c \<le> 0xBF
           then Some 3 else None | _ \<Rightarrow> None)
      else if 0xF0 \<le> a \<and> a \<le> 0xF4 then
        (case bs of b # c # d # _ \<Rightarrow>
           if (if a = 0xF0 then 0x90 \<le> b \<and> b \<le> 0xBF else if a = 0xF4 then 0x80 \<le> b \<and> b \<le> 0x8F else 0x80 \<le> b \<and> b \<le> 0xBF)
             \<and> (0x80 \<le> c \<and> c \<le> 0xBF) \<and> 0x80 \<le> d \<and> d \<le> 0xBF
           then Some 4 else None | _ \<Rightarrow> None)
      else None)"
| "head_nat [] = None"

lemma utf8_head_nat: "utf8_head bs = head_nat (map unat bs)"
proof (cases bs)
  case (Cons a bs')
  have eq: "a = 0xE0 \<longleftrightarrow> unat a = 0xE0" "a = 0xED \<longleftrightarrow> unat a = 0xED" "a = 0xF0 \<longleftrightarrow> unat a = 0xF0" "a = 0xF4 \<longleftrightarrow> unat a = 0xF4"
    by (auto simp: word_unat_eq_iff)
  show ?thesis
    unfolding Cons list.map utf8_head.simps head_nat.simps eq cont_def word_le_nat_alt word_less_nat_alt
    by (cases bs'; cases "tl bs'"; cases "tl (tl bs')") simp_all
qed simp

lemma encode_byte: "scalar n \<Longrightarrow> b \<in> set (encode_nat n) \<Longrightarrow> b < 256"
  by (auto simp: encode_nat_def scalar_def split: if_splits)

lemma unat_utf8_encode: "scalar n \<Longrightarrow> map unat (utf8_encode n) = encode_nat n"
  using encode_byte [of n] by (simp add: utf8_encode_def list_eq_iff_nth_eq unat_of_nat_small)

text \<open>Code points in base 64.\<close>

lemma base64_step: "z < 64 \<Longrightarrow> (64 * q + z) div 64 = q \<and> (64 * q + z) mod 64 = (z::nat)"
  by (simp only: div_mult_self4 mod_mult_self4) simp

lemma base64_digits:
  fixes w x y z :: nat
  assumes "x < 64" "y < 64" "z < 64" "n = 262144 * w + 4096 * x + 64 * y + z"
  shows "n mod 64 = z" "n div 64 mod 64 = y" "n div 4096 mod 64 = x" "n div 262144 = w" "n div 64 = 4096 * w + 64 * x + y"
    "n div 4096 = 64 * w + x"
proof -
  have n: "n = 64 * (64 * (64 * w + x) + y) + z" using assms(4) by simp
  have d: "n div 64 = 64 * (64 * w + x) + y" "n mod 64 = z" using base64_step [OF assms(3)] unfolding n by blast+
  have e: "n div 4096 = 64 * w + x" using div_mult2_eq [of n 64 64] base64_step [OF assms(2), of "64 * w + x"] unfolding d by simp
  have f: "n div 262144 = w" using div_mult2_eq [of n 4096 64] base64_step [OF assms(1), of w] unfolding e by simp
  show "n div 64 mod 64 = y" "n div 4096 mod 64 = x" unfolding d e using base64_step assms(1,2) by blast+
  show "n mod 64 = z" "n div 262144 = w" using d f by blast+
  show "n div 64 = 4096 * w + 64 * x + y" "n div 4096 = 64 * w + x" using d e by simp_all
qed

lemma base64_cases:
  fixes n :: nat
  obtains w x y z where "n = 262144 * w + 4096 * x + 64 * y + z" "x < 64" "y < 64" "z < 64"
proof
  define q r where "q = n div 64" and "r = q div 64"
  have "n = 64 * q + n mod 64" "q = 64 * r + q mod 64" "r = 64 * (r div 64) + r mod 64" by (simp_all add: q_def r_def)
  then show "n = 262144 * (r div 64) + 4096 * (r mod 64) + 64 * (q mod 64) + n mod 64" by linarith
qed simp_all

lemma encode_base64:
  assumes "x < 64" "y < 64" "z < 64"
  shows "encode_nat (262144 * w + 4096 * x + 64 * y + z) =
     (if w = 0 \<and> x = 0 \<and> y < 2 then [64 * y + z]
      else if w = 0 \<and> x = 0 \<and> y < 32 then [0xC0 + y, 0x80 + z]
      else if w = 0 \<and> x < 16 then [0xE0 + x, 0x80 + y, 0x80 + z]
      else [0xF0 + w, 0x80 + x, 0x80 + y, 0x80 + z])"
proof -
  define n where "n = 262144 * w + 4096 * x + 64 * y + z"
  have c: "n < 0x80 \<longleftrightarrow> w = 0 \<and> x = 0 \<and> y < 2" "n < 0x800 \<longleftrightarrow> w = 0 \<and> x = 0 \<and> y < 32" "n < 0x10000 \<longleftrightarrow> w = 0 \<and> x < 16"
    using assms n_def by linarith+
  note d = base64_digits [OF assms n_def]
  show ?thesis unfolding n_def [symmetric] encode_nat_def c d(1-4) unfolding d(5,6) by (auto simp: n_def)
qed

lemma scalar_base64:
  assumes "x < 64" "y < 64" "z < (64::nat)"
  shows "scalar (262144 * w + 4096 * x + 64 * y + z) \<longleftrightarrow> (w < 4 \<or> w = 4 \<and> x < 16) \<and> \<not> (w = 0 \<and> x = 13 \<and> 32 \<le> y)"
proof -
  define n where "n = 262144 * w + 4096 * x + 64 * y + z"
  have "n < 0x110000 \<longleftrightarrow> w < 4 \<or> w = 4 \<and> x < 16" using assms n_def by linarith
  moreover have "0xD800 \<le> n \<and> n \<le> 0xDFFF \<longleftrightarrow> w = 0 \<and> x = 13 \<and> 32 \<le> y"
  proof (cases "w = 0 \<and> x = 13")
    case False
    then consider "w = 0" "x < 13" | "w = 0" "13 < x" | "0 < w" by linarith
    then show ?thesis using assms n_def False by cases linarith+
  next
    case True
    then show ?thesis using assms n_def by simp linarith
  qed
  ultimately show ?thesis unfolding n_def scalar_def by blast
qed

lemma head_encode:
  assumes "scalar n"
  shows "head_nat (encode_nat n @ bs) = Some (length (encode_nat n))"
proof -
  obtain w x y z where n: "n = 262144 * w + 4096 * x + 64 * y + z" "x < 64" "y < 64" "z < 64" by (rule base64_cases)
  from assms show ?thesis
    unfolding n(1) encode_base64 [OF n(2-4)] using scalar_base64 [OF n(2-4), of w] n(2-4) by auto
qed

text \<open>What the table accepts at the head is the encoding of a scalar value.\<close>

lemma head_decode:
  assumes "head_nat bs = Some k"
  shows "\<exists>n. scalar n \<and> take k bs = encode_nat n \<and> bs = encode_nat n @ drop k bs"
proof -
  have digits: "\<exists>n. scalar n \<and> e = encode_nat n"
    if "x < 64" "y < 64" "z < 64" "(w < 4 \<or> w = 4 \<and> x < 16) \<and> \<not> (w = 0 \<and> x = 13 \<and> 32 \<le> y)"
      "encode_nat (262144 * w + 4096 * x + 64 * y + z) = e"
    for w x y z and e :: "nat list"
    using that scalar_base64 [OF that(1-3), of w] by metis
  have "\<exists>n. scalar n \<and> take k bs = encode_nat n"
  proof (cases bs)
    case (Cons a bs')
    consider "k = 1" "a < 0x80"
      | b r where "k = 2" "bs' = b # r" "0xC2 \<le> a" "a \<le> 0xDF" "0x80 \<le> b" "b \<le> 0xBF"
      | b c r where "k = 3" "bs' = b # c # r" "0xE0 \<le> a" "a \<le> 0xEF" "0x80 \<le> b" "b \<le> 0xBF" "0x80 \<le> c" "c \<le> 0xBF"
          "a = 0xE0 \<longrightarrow> 0xA0 \<le> b" "a = 0xED \<longrightarrow> b \<le> 0x9F"
      | b c d r where "k = 4" "bs' = b # c # d # r" "0xF0 \<le> a" "a \<le> 0xF4" "0x80 \<le> b" "b \<le> 0xBF" "0x80 \<le> c" "c \<le> 0xBF"
          "0x80 \<le> d" "d \<le> 0xBF" "a = 0xF0 \<longrightarrow> 0x90 \<le> b" "a = 0xF4 \<longrightarrow> b \<le> 0x8F"
      using assms Cons by (fastforce split: if_splits list.splits)
    then show ?thesis
    proof cases
      case 1
      then have "scalar a" "encode_nat a = [a]" by (simp_all add: scalar_def encode_nat_def)
      with 1 Cons show ?thesis by auto
    next
      case 2
      then have "\<exists>n. scalar n \<and> [a, b] = encode_nat n"
        by (intro digits [of 0 "a - 0xC0" "b - 0x80" 0]; (subst encode_base64)?; auto)
      with 2 Cons show ?thesis by simp
    next
      case 3
      then have "\<exists>n. scalar n \<and> [a, b, c] = encode_nat n"
        by (intro digits [of "a - 0xE0" "b - 0x80" "c - 0x80" 0]; (subst encode_base64)?; auto)
      with 3 Cons show ?thesis by simp
    next
      case 4
      then have "\<exists>n. scalar n \<and> [a, b, c, d] = encode_nat n"
        by (intro digits [of "b - 0x80" "c - 0x80" "d - 0x80" "a - 0xF0"]; (subst encode_base64)?; auto)
      with 4 Cons show ?thesis by simp
    qed
  qed (use assms in simp)
  then show ?thesis by (metis append_take_drop_id)
qed

section \<open>The check accepts exactly the encodings\<close>

lemma length_encode: "0 < length (encode_nat n)"
  by (simp add: encode_nat_def)

lemma encode_nat_append_inj:
  assumes "scalar m" "scalar n" "encode_nat m @ xs = encode_nat n @ ys"
  shows "m = n \<and> xs = ys"
proof -
  have l: "length (encode_nat m) = length (encode_nat n)" using head_encode assms by (metis option.inject)
  with assms have eq: "encode_nat m = encode_nat n" "xs = ys" by simp_all
  obtain w x y z where m: "m = 262144 * w + 4096 * x + 64 * y + z" "x < 64" "y < 64" "z < 64" by (rule base64_cases)
  obtain w' x' y' z' where n: "n = 262144 * w' + 4096 * x' + 64 * y' + z'" "x' < 64" "y' < 64" "z' < 64" by (rule base64_cases)
  have "m = n" using eq(1) m(2-4) n(2-4) unfolding m(1) n(1) encode_base64 [OF m(2-4)] encode_base64 [OF n(2-4)]
    by (simp split: if_splits)
  with eq show ?thesis by simp
qed

lemma map_unat_inj: "map unat xs = map (unat :: u8 \<Rightarrow> nat) ys \<Longrightarrow> xs = ys"
  by (metis inj_map_eq_map injI unsigned_word_eqI)

lemma utf8_encode_append_inj:
  assumes "scalar m" "scalar n" "utf8_encode m @ xs = utf8_encode n @ ys"
  shows "m = n \<and> xs = ys"
proof -
  have "encode_nat m @ map unat xs = encode_nat n @ map unat ys"
    using arg_cong [OF assms(3), of "map unat"] by (simp only: map_append unat_utf8_encode assms(1,2))
  then show ?thesis using encode_nat_append_inj assms map_unat_inj by blast
qed

lemma utf8_encode_not_Nil [simp]: "utf8_encode n \<noteq> []"
  by (simp add: utf8_encode_def encode_nat_def)

lemma utf8_head_encode: "scalar n \<Longrightarrow> utf8_head (utf8_encode n @ bs) = Some (length (utf8_encode n))"
  using head_encode [of n "map unat bs"] by (simp only: utf8_head_nat map_append unat_utf8_encode) (simp add: utf8_encode_def)

lemma utf8_head_decode:
  assumes "utf8_head bs = Some k"
  obtains n where "scalar n" "bs = utf8_encode n @ drop k bs"
proof -
  obtain n where n: "scalar n" "map unat bs = encode_nat n @ drop k (map unat bs)"
    using head_decode assms unfolding utf8_head_nat by blast
  then have "map unat bs = map unat (utf8_encode n @ drop k bs)" by (simp add: unat_utf8_encode drop_map)
  with n that show thesis by (blast dest: map_unat_inj)
qed

lemma concat_encode_inj:
  assumes "list_all scalar cs" "list_all scalar ds" "concat (map utf8_encode cs) = concat (map utf8_encode ds)"
  shows "cs = ds"
  using assms
proof (induction cs arbitrary: ds)
  case (Cons c cs)
  from Cons.prems(3) obtain d ds' where "ds = d # ds'" by (cases ds) simp_all
  with Cons.prems Cons.IH [of ds'] utf8_encode_append_inj [of c d "concat (map utf8_encode cs)" "concat (map utf8_encode ds')"]
  show ?case by simp
qed (auto simp: concat_eq_Nil_conv)

lemma utf8_valid_encode: "list_all scalar cs \<Longrightarrow> utf8_valid (concat (map utf8_encode cs))"
proof (induction cs)
  case (Cons c cs)
  then show ?case by (subst utf8_valid.simps) (simp add: utf8_head_encode)
qed (simp add: utf8_valid.simps)

lemma utf8_valid_decode: "utf8_valid bs \<Longrightarrow> \<exists>cs. list_all scalar cs \<and> bs = concat (map utf8_encode cs)"
proof (induction bs rule: utf8_valid.induct)
  case (1 bs)
  show ?case
  proof (cases "bs = []")
    case False
    with 1(2) obtain k where k: "utf8_head bs = Some k" "utf8_valid (drop k bs)"
      by (subst (asm) utf8_valid.simps) (auto split: option.splits)
    with 1(1) False obtain cs where "list_all scalar cs" "drop k bs = concat (map utf8_encode cs)" by blast
    moreover obtain n where "scalar n" "bs = utf8_encode n @ drop k bs" using utf8_head_decode k(1) by blast
    ultimately have "list_all scalar (n # cs) \<and> bs = concat (map utf8_encode (n # cs))" by simp
    then show ?thesis by blast
  qed (auto intro: exI [of _ "[]"])
qed

text \<open>
  Bytes pass the check exactly when they are the encoding of a sequence of scalar values (surrogates,
  overlong forms and values over 10FFFF do not pass), and then of one sequence only.
\<close>

lemma utf8_valid_iff_encoding:
  "utf8_valid bs \<longleftrightarrow> (\<exists>!cs. list_all scalar cs \<and> bs = concat (map utf8_encode cs))"
  using utf8_valid_encode utf8_valid_decode concat_encode_inj by blast

end
