(* ===== verification/Wasm.thy ===== *)
theory Wasm
  imports Utf8
begin

text \<open>
  \<open>vortex-filters/src/wasm_engine.rs\<close> and \<open>proxy_wasm/\<close>: the status codes of the Proxy-Wasm ABI, the
  host functions a guest can call with their registration, and the two entry points that run a
  module. Wasmtime is a parameter: the engine (\<open>Wasmtime\<close>), the linker and the guest runtime
  (\<open>ProxyWasm\<close>, with the laws in \<open>linker\<close> and \<open>guest_runtime\<close>), and the memory a guest exports, with
  \<open>memory_law\<close> the documented behaviour of \<open>Memory::read\<close>. The UTF-8 check is that of \<open>Utf8\<close>.
\<close>

section \<open>Status codes\<close>

datatype WasmResult = Ok | NotFound | BadArgument | SerializationFailure | ParseFailure | BadExpression
  | InvalidMemoryAccess | Empty | CasMismatch | ResultMismatch | InternalFailure | BrokenConnection

fun wasm_code :: "WasmResult \<Rightarrow> i32" where
  "wasm_code Ok = 0"
| "wasm_code NotFound = 1"
| "wasm_code BadArgument = 2"
| "wasm_code SerializationFailure = 3"
| "wasm_code ParseFailure = 4"
| "wasm_code BadExpression = 5"
| "wasm_code InvalidMemoryAccess = 6"
| "wasm_code Empty = 7"
| "wasm_code CasMismatch = 8"
| "wasm_code ResultMismatch = 9"
| "wasm_code InternalFailure = 10"
| "wasm_code BrokenConnection = 11"

definition wasm_result_from :: "i32 \<Rightarrow> WasmResult" where
  "wasm_result_from val =
     (if val = 0 then Ok else if val = 1 then NotFound else if val = 2 then BadArgument
      else if val = 3 then SerializationFailure else if val = 4 then ParseFailure
      else if val = 5 then BadExpression else if val = 6 then InvalidMemoryAccess
      else if val = 7 then Empty else InternalFailure)"

datatype Action = Continue | Pause

section \<open>Host functions\<close>

record HostEnvironment =
  log :: "i32 \<Rightarrow> u8 list \<Rightarrow> WasmResult"
  get_header_map_value :: "i32 \<Rightarrow> u8 list \<Rightarrow> u8 list option"

text \<open>\<open>Memory::read\<close> of a guest's exported memory: offset and size give the bytes or an error.\<close>

type_synonym memory = "usize \<Rightarrow> usize \<Rightarrow> u8 list option"

text \<open>\<open>as usize\<close> of an \<open>i32\<close> extends the sign.\<close>

definition as_usize :: "i32 \<Rightarrow> usize" where
  "as_usize n = of_int (sint n)"

text \<open>\<open>vec![0u8; n]\<close> panics on more than \<open>isize::MAX\<close> bytes.\<close>

definition vec_zeroed :: "usize \<Rightarrow> unit outcome" where
  "vec_zeroed n = (if unat n < 2 ^ 63 then Ret () else Panic)"

text \<open>The steps both functions share: the memory, the buffer, the read, the UTF-8 check.\<close>

definition guest_string :: "memory option \<Rightarrow> i32 \<Rightarrow> i32 \<Rightarrow> (WasmResult + u8 list) outcome" where
  "guest_string mem data size' = (case mem of
       None \<Rightarrow> Ret (Inl InternalFailure)
     | Some m \<Rightarrow> obind (vec_zeroed (as_usize size')) (\<lambda>_.
         case m (as_usize data) (as_usize size') of
           None \<Rightarrow> Ret (Inl InvalidMemoryAccess)
         | Some buffer \<Rightarrow> if utf8_valid buffer then Ret (Inr buffer) else Ret (Inl ParseFailure)))"

text \<open>\<open>Caller\<close>: the environment is the data of the store, the memory the guest's export.\<close>

definition proxy_log :: "HostEnvironment \<Rightarrow> memory option \<Rightarrow> i32 \<Rightarrow> i32 \<Rightarrow> i32 \<Rightarrow> i32 outcome" where
  "proxy_log env mem level message_data message_size =
     obind (guest_string mem message_data message_size) (\<lambda>r. case r of
       Inl e \<Rightarrow> Ret (wasm_code e)
     | Inr message \<Rightarrow> Ret (wasm_code (log env level message)))"

definition proxy_get_header_map_value :: "HostEnvironment \<Rightarrow> memory option \<Rightarrow> i32 \<Rightarrow> i32 \<Rightarrow> i32 \<Rightarrow> i32 \<Rightarrow> i32 \<Rightarrow> i32 outcome" where
  "proxy_get_header_map_value env mem map_type key_data key_size return_value_data return_value_size =
     obind (guest_string mem key_data key_size) (\<lambda>r. case r of
       Inl e \<Rightarrow> Ret (wasm_code e)
     | Inr key_str \<Rightarrow> (case get_header_map_value env map_type key_str of
           Some _ \<Rightarrow> Ret (wasm_code Ok)
         | None \<Rightarrow> Ret (wasm_code NotFound)))"

definition proxy_continue_stream :: "HostEnvironment \<Rightarrow> memory option \<Rightarrow> i32 \<Rightarrow> i32 outcome" where
  "proxy_continue_stream env mem stream_type = Ret (wasm_code Ok)"

text \<open>
  What \<open>func_wrap\<close> takes: a closure with one, three or five arguments. The linker and the part of Wasmtime
  that instantiates and calls guests are parameters; a panic of a host function unwinds through the call.
\<close>

datatype HostFunc =
    Func1 "HostEnvironment \<Rightarrow> memory option \<Rightarrow> i32 \<Rightarrow> i32 outcome"
  | Func3 "HostEnvironment \<Rightarrow> memory option \<Rightarrow> i32 \<Rightarrow> i32 \<Rightarrow> i32 \<Rightarrow> i32 outcome"
  | Func5 "HostEnvironment \<Rightarrow> memory option \<Rightarrow> i32 \<Rightarrow> i32 \<Rightarrow> i32 \<Rightarrow> i32 \<Rightarrow> i32 \<Rightarrow> i32 outcome"

record ('l, 'w) ProxyWasm =
  linker_new :: 'l
  func_wrap :: "string \<Rightarrow> string \<Rightarrow> HostFunc \<Rightarrow> 'l \<Rightarrow> string + 'l"
  pw_module :: "u8 list \<Rightarrow> string + 'w"
  pw_instantiate :: "'l \<Rightarrow> HostEnvironment \<Rightarrow> 'w \<Rightarrow> (string + 'w) outcome"
  pw_func3 :: "'w \<Rightarrow> string \<Rightarrow> string + 'w"
  pw_call3 :: "'w \<Rightarrow> i32 \<Rightarrow> i32 \<Rightarrow> i32 \<Rightarrow> (string + i32) outcome"

definition register_proxy_wasm_abi :: "('l, 'w) ProxyWasm \<Rightarrow> 'l \<Rightarrow> string + 'l" where
  "register_proxy_wasm_abi P linker =
     sbind (func_wrap P ''env'' ''proxy_log'' (Func3 proxy_log) linker) (\<lambda>linker.
     sbind (func_wrap P ''env'' ''proxy_get_header_map_value'' (Func5 proxy_get_header_map_value) linker) (\<lambda>linker.
     func_wrap P ''env'' ''proxy_continue_stream'' (Func1 proxy_continue_stream) linker))"

section \<open>Running a module\<close>

record 'w Wasmtime =
  wt_module :: "u8 list \<Rightarrow> string + 'w"
  wt_instance :: "'w \<Rightarrow> string + 'w"
  wt_func0 :: "'w \<Rightarrow> string \<Rightarrow> string + 'w"
  wt_call0 :: "'w \<Rightarrow> string + i32"

text \<open>\<open>WasmEngine::default\<close>: the engine with its pool of instances; a failure of \<open>Engine::new\<close> is a panic.\<close>

record WasmConfig =
  pooling :: bool
  total_core_instances :: u32

definition wasm_engine_default :: "(WasmConfig \<Rightarrow> string + 'e) \<Rightarrow> 'e outcome" where
  "wasm_engine_default engine_new =
     (let config = \<lparr>pooling = True, total_core_instances = 1000\<rparr>
      in expect (engine_new config))"

definition wasm_engine_new :: "(WasmConfig \<Rightarrow> string + 'e) \<Rightarrow> 'e outcome" where
  "wasm_engine_new engine_new = wasm_engine_default engine_new"

definition execute_filter :: "'w Wasmtime \<Rightarrow> u8 list \<Rightarrow> string + i32" where
  "execute_filter W wasm_bytes =
     sbind (wt_module W wasm_bytes) (\<lambda>module.
     sbind (wt_instance W module) (\<lambda>instance.
     sbind (wt_func0 W instance ''execute'') (\<lambda>execute.
     wt_call0 W execute)))"

text \<open>An error ends the call with that error, and a panic with a panic.\<close>

definition tri :: "(string + 'a) outcome \<Rightarrow> ('a \<Rightarrow> (string + 'b) outcome) \<Rightarrow> (string + 'b) outcome" where
  "tri x f = obind x (\<lambda>r. case r of Inl e \<Rightarrow> Ret (Inl e) | Inr y \<Rightarrow> f y)"

definition execute_proxy_wasm :: "('l, 'w) ProxyWasm \<Rightarrow> u8 list \<Rightarrow> HostEnvironment \<Rightarrow> (string + unit) outcome" where
  "execute_proxy_wasm P wasm_bytes env =
     tri (Ret (pw_module P wasm_bytes)) (\<lambda>module.
     tri (Ret (register_proxy_wasm_abi P (linker_new P))) (\<lambda>linker.
     tri (pw_instantiate P linker env module) (\<lambda>instance.
     case pw_func3 P instance ''proxy_on_request_headers'' of
       Inl _ \<Rightarrow> Ret (Inr ())
     | Inr on_request_headers \<Rightarrow> tri (pw_call3 P on_request_headers 1 2 3) (\<lambda>action. Ret (Inr ())))))"

lemma tri_eq_Inr [outcome_simps]: "tri x f = Ret (Inr b) \<longleftrightarrow> (\<exists>y. x = Ret (Inr y) \<and> f y = Ret (Inr b))"
  by (cases x rule: outcome.exhaust) (auto simp: tri_def split: sum.splits)

section \<open>Lemmas\<close>

definition memory_law :: "memory \<Rightarrow> u8 list \<Rightarrow> bool" where
  "memory_law m bytes \<longleftrightarrow> length bytes \<le> 2 ^ 32 \<and>
     (\<forall>off n. m off n = (if unat off + unat n \<le> length bytes
                       then Some (take (unat n) (drop (unat off) bytes)) else None))"

lemma unat_of_int_u64: "unat (of_int z :: u64) = nat (z mod 2 ^ 64)"
  by (simp add: unsigned_of_int take_bit_eq_mod)

lemma as_usize_nonneg: "0 \<le> sint n \<Longrightarrow> unat (as_usize n) = nat (sint n)"
proof -
  assume "0 \<le> sint n"
  moreover have "sint n < 2 ^ 64" using sint_lt [of n] by simp
  ultimately have "sint n mod 2 ^ 64 = sint n" by (rule mod_pos_pos_trivial)
  then show ?thesis by (simp only: as_usize_def unat_of_int_u64)
qed

lemma as_usize_neg: "sint n < 0 \<Longrightarrow> 2 ^ 63 \<le> unat (as_usize n)"
proof -
  assume neg: "sint n < 0"
  have ge: "- (2 ^ 31) \<le> sint n" using sint_ge [of n] by simp
  have "(sint n + 2 ^ 64) mod 2 ^ 64 = sint n + 2 ^ 64" using neg ge by (intro mod_pos_pos_trivial) simp_all
  then have "sint n mod 2 ^ 64 = sint n + 2 ^ 64" by (simp only: mod_add_self2)
  then have "unat (as_usize n) = nat (sint n + 2 ^ 64)" by (simp only: as_usize_def unat_of_int_u64)
  with ge show ?thesis by simp
qed

text \<open>Every branch of reading a string from a guest with a memory.\<close>

lemma guest_string_cases:
  assumes "memory_law m bytes"
  shows "guest_string (Some m) data n =
    (if sint n < 0 then Panic
     else if sint data < 0 \<or> nat (sint data) + nat (sint n) > length bytes then Ret (Inl InvalidMemoryAccess)
     else if utf8_valid (take (nat (sint n)) (drop (nat (sint data)) bytes))
          then Ret (Inr (take (nat (sint n)) (drop (nat (sint data)) bytes)))
          else Ret (Inl ParseFailure))"
proof (cases "sint n < 0")
  case True
  then show ?thesis using as_usize_neg [OF True] by (simp add: guest_string_def vec_zeroed_def)
next
  case False
  then have un: "unat (as_usize n) = nat (sint n)" by (simp add: as_usize_nonneg)
  have "nat (sint n) < 2 ^ 63" using sint_lt [of n] by simp
  then have v: "vec_zeroed (as_usize n) = Ret ()" by (simp add: vec_zeroed_def un)
  show ?thesis
  proof (cases "sint data < 0")
    case True
    have "length bytes \<le> 2 ^ 32" using assms by (simp add: memory_law_def)
    with as_usize_neg [OF True] have "\<not> unat (as_usize data) + unat (as_usize n) \<le> length bytes" by simp
    with assms v True False show ?thesis by (simp add: guest_string_def memory_law_def)
  next
    case d: False
    with False assms v un show ?thesis by (simp add: guest_string_def memory_law_def as_usize_nonneg)
  qed
qed

section \<open>Properties\<close>

text \<open>
  C34. The host function \<open>proxy_log\<close> on every branch. Without an exported memory it answers internal
  failure. Otherwise a negative size makes the host panic while it allocates the buffer; a range
  that starts at a negative address or ends beyond the memory is an invalid access; bytes that are
  not UTF-8 are a parse failure; and the host environment is called exactly in the remaining case,
  with precisely the guest's bytes of that range.
\<close>

theorem proxy_log_branches:
  assumes "memory_law m bytes"
  shows "proxy_log env None level data n = Ret (wasm_code InternalFailure)
    \<and> proxy_log env (Some m) level data n =
      (if sint n < 0 then Panic
       else if sint data < 0 \<or> nat (sint data) + nat (sint n) > length bytes then Ret (wasm_code InvalidMemoryAccess)
       else let message = take (nat (sint n)) (drop (nat (sint data)) bytes)
            in if utf8_valid message then Ret (wasm_code (log env level message)) else Ret (wasm_code ParseFailure))"
  unfolding proxy_log_def guest_string_cases [OF assms] by (simp add: guest_string_def Let_def)

definition list_memory :: "u8 list \<Rightarrow> memory" where
  "list_memory bytes = (\<lambda>off n. if unat off + unat n \<le> length bytes
     then Some (take (unat n) (drop (unat off) bytes)) else None)"

lemma list_memory_law: "length bytes \<le> 2 ^ 32 \<Longrightarrow> memory_law (list_memory bytes) bytes"
  by (simp add: memory_law_def list_memory_def)

theorem proxy_log_branches_witness:
  "proxy_log \<lparr>log = (\<lambda>l msg. if msg = [0x68, 0x69] then Ok else BadArgument), get_header_map_value = (\<lambda>_ _. None)\<rparr>
     (Some (list_memory [0, 0x68, 0x69, 0xFF])) 2 1 2 = Ret 0
   \<and> proxy_log \<lparr>log = (\<lambda>l msg. Ok), get_header_map_value = (\<lambda>_ _. None)\<rparr>
     (Some (list_memory [0, 0x68, 0x69, 0xFF])) 2 0 (- 1) = Panic"
  using proxy_log_branches [OF list_memory_law [of "[0, 0x68, 0x69, 0xFF]"],
      of "\<lparr>log = (\<lambda>l msg. if msg = [0x68, 0x69] then Ok else BadArgument), get_header_map_value = (\<lambda>_ _. None)\<rparr>" 2 1 2]
    proxy_log_branches [OF list_memory_law [of "[0, 0x68, 0x69, 0xFF]"],
      of "\<lparr>log = (\<lambda>l msg. Ok), get_header_map_value = (\<lambda>_ _. None)\<rparr>" 2 0 "- 1"]
  by (simp add: utf8_valid.simps)

text \<open>
  C35. A string argument of a guest is accepted exactly when its range lies within the guest's memory, at a
  non-negative address and of a non-negative size, and holds the UTF-8 encoding of a sequence of Unicode
  scalar values. What the host function then works on is that encoding, byte for byte, and it can be read
  back as one sequence only: surrogates, overlong forms and values over 10FFFF are never passed on.
\<close>

theorem guest_string_is_guest_text:
  assumes "memory_law m bytes"
  shows "guest_string (Some m) data n = Ret (Inr s) \<longleftrightarrow>
    0 \<le> sint n \<and> 0 \<le> sint data \<and> nat (sint data) + nat (sint n) \<le> length bytes
    \<and> s = take (nat (sint n)) (drop (nat (sint data)) bytes)
    \<and> (\<exists>!text. list_all scalar text \<and> s = concat (map utf8_encode text))"
  unfolding utf8_valid_iff_encoding [symmetric] guest_string_cases [OF assms] by auto

lemma utf8_single: "scalar c \<Longrightarrow> \<exists>!text. list_all scalar text \<and> utf8_encode c = concat (map utf8_encode text)"
  using utf8_valid_encode [of "[c]"] unfolding utf8_valid_iff_encoding by simp

theorem guest_string_is_guest_text_witness:
  "guest_string (Some (list_memory [0x41, 0xE2, 0x82, 0xAC])) 1 3 = Ret (Inr [0xE2, 0x82, 0xAC])"
  using guest_string_is_guest_text [OF list_memory_law [of "[0x41, 0xE2, 0x82, 0xAC]"], where data = 1 and n = 3 and s = "[0xE2, 0x82, 0xAC]"]
    utf8_single [of 8364]
  by (simp add: scalar_def utf8_encode_def encode_nat_def)

text \<open>
  Status codes: turning a result into its ABI code and back gives the same result except for
  three of the twelve, \<open>CasMismatch\<close>, \<open>ResultMismatch\<close> and \<open>BrokenConnection\<close>, which come back as internal
  failure; and no code comes back as any of the three.
\<close>

lemma wasm_code_roundtrip:
  "(wasm_result_from (wasm_code r) =
      (if r = CasMismatch \<or> r = ResultMismatch \<or> r = BrokenConnection then InternalFailure else r))
   \<and> wasm_result_from v \<notin> {CasMismatch, ResultMismatch, BrokenConnection}"
  by (cases r) (simp_all add: wasm_result_from_def)

section \<open>Registration and guests\<close>

text \<open>What a guest finds under its imports: the three functions of the ABI, in the module \<open>env\<close>.\<close>

definition abi :: "string \<Rightarrow> string \<Rightarrow> HostFunc option" where
  "abi m n =
     (if (m, n) = (''env'', ''proxy_log'') then Some (Func3 proxy_log)
      else if (m, n) = (''env'', ''proxy_get_header_map_value'') then Some (Func5 proxy_get_header_map_value)
      else if (m, n) = (''env'', ''proxy_continue_stream'') then Some (Func1 proxy_continue_stream) else None)"

text \<open>
  The documented laws of Wasmtime's linker: a new one defines nothing, \<open>func_wrap\<close> adds exactly the
  definition of a name that is free, and refuses a name that is taken.
\<close>

locale linker =
  fixes P :: "('l, 'w) ProxyWasm" and lookup :: "'l \<Rightarrow> string \<Rightarrow> string \<Rightarrow> HostFunc option"
  assumes lookup_new: "lookup (linker_new P) m n = None"
    and wrap_free: "lookup l m n = None \<Longrightarrow> \<exists>l'. func_wrap P m n f l = Inr l' \<and> (\<forall>m' n'. lookup l' m' n' = (if (m', n') = (m, n) then Some f else lookup l m' n'))"
    and wrap_taken: "lookup l m n = Some g \<Longrightarrow> \<exists>e. func_wrap P m n f l = Inl e"
begin

lemma register_new: "\<exists>l. register_proxy_wasm_abi P (linker_new P) = Inr l \<and> lookup l = abi"
proof -
  obtain l1 where l1: "func_wrap P ''env'' ''proxy_log'' (Func3 proxy_log) (linker_new P) = Inr l1"
    "\<And>m n. lookup l1 m n = (if (m, n) = (''env'', ''proxy_log'') then Some (Func3 proxy_log) else None)"
    using wrap_free [OF lookup_new] by (fastforce simp: lookup_new)
  obtain l2 where l2: "func_wrap P ''env'' ''proxy_get_header_map_value'' (Func5 proxy_get_header_map_value) l1 = Inr l2"
    "\<And>m n. lookup l2 m n = (if (m, n) = (''env'', ''proxy_get_header_map_value'') then Some (Func5 proxy_get_header_map_value) else lookup l1 m n)"
    using wrap_free [of l1 "''env''" "''proxy_get_header_map_value''"] l1(2) by fastforce
  obtain l3 where l3: "func_wrap P ''env'' ''proxy_continue_stream'' (Func1 proxy_continue_stream) l2 = Inr l3"
    "\<And>m n. lookup l3 m n = (if (m, n) = (''env'', ''proxy_continue_stream'') then Some (Func1 proxy_continue_stream) else lookup l2 m n)"
    using wrap_free [of l2 "''env''" "''proxy_continue_stream''"] l2(2) l1(2) by fastforce
  have "register_proxy_wasm_abi P (linker_new P) = Inr l3" by (simp add: register_proxy_wasm_abi_def l1(1) l2(1) l3(1) outcome_simps)
  moreover have "lookup l3 = abi" by (intro ext) (auto simp: abi_def l1(2) l2(2) l3(2))
  ultimately show ?thesis by blast
qed

lemma register_twice: "register_proxy_wasm_abi P (linker_new P) = Inr l \<Longrightarrow> \<exists>e. register_proxy_wasm_abi P l = Inl e"
proof -
  assume "register_proxy_wasm_abi P (linker_new P) = Inr l"
  then have "lookup l ''env'' ''proxy_log'' = Some (Func3 proxy_log)" using register_new by (fastforce simp: abi_def)
  then obtain e where "func_wrap P ''env'' ''proxy_log'' (Func3 proxy_log) l = Inl e" using wrap_taken by blast
  then show ?thesis by (auto simp: register_proxy_wasm_abi_def outcome_simps)
qed

end

text \<open>
  Guests. \<open>host_call\<close> runs a host function for a guest that passes the given arguments. Wasmtime hands the
  data of the store to host functions only: instances made with two environments are the same when
  all the host functions they can call are.
\<close>

fun host_call :: "HostFunc \<Rightarrow> HostEnvironment \<Rightarrow> memory option \<Rightarrow> i32 list \<Rightarrow> i32 outcome option" where
  "host_call (Func1 f) env mem [a] = Some (f env mem a)"
| "host_call (Func3 f) env mem [a, b, c] = Some (f env mem a b c)"
| "host_call (Func5 f) env mem [a, b, c, d, e] = Some (f env mem a b c d e)"
| "host_call _ env mem _ = None"

locale guest_runtime = linker +
  assumes data_opaque: "(\<And>m n f. lookup l m n = Some f \<Longrightarrow> host_call f env = host_call f env')
    \<Longrightarrow> pw_instantiate P l env w = pw_instantiate P l env' w"
begin

lemma execute_depends_on_calls:
  assumes "\<And>m n f. abi m n = Some f \<Longrightarrow> host_call f env = host_call f env'"
  shows "execute_proxy_wasm P bytes env = execute_proxy_wasm P bytes env'"
proof -
  obtain l where l: "register_proxy_wasm_abi P (linker_new P) = Inr l" "lookup l = abi" using register_new by blast
  have "pw_instantiate P l env w = pw_instantiate P l env' w" for w by (rule data_opaque) (use assms l(2) in auto)
  then show ?thesis by (simp add: execute_proxy_wasm_def l(1) tri_def)
qed

end

lemma header_call_sees_presence:
  assumes "\<And>t k. get_header_map_value e1 t k = None \<longleftrightarrow> get_header_map_value e2 t k = None"
  shows "proxy_get_header_map_value e1 = proxy_get_header_map_value e2"
proof (intro ext)
  fix mem t kd ks vd vs
  have "(case get_header_map_value e1 t k of None \<Rightarrow> a | Some _ \<Rightarrow> b) = (case get_header_map_value e2 t k of None \<Rightarrow> a | Some _ \<Rightarrow> b)"
    for a b :: "i32 outcome" and k using assms [of t k] by (auto split: option.splits)
  then show "proxy_get_header_map_value e1 mem t kd ks vd vs = proxy_get_header_map_value e2 mem t kd ks vd vs"
    unfolding proxy_get_header_map_value_def by simp
qed

lemma host_call_cong:
  "(\<And>mem a b c. f env mem a b c = f env' mem a b c) \<Longrightarrow> host_call (Func3 f) env = host_call (Func3 f) env'"
  "(\<And>mem a b c d e. g env mem a b c d e = g env' mem a b c d e) \<Longrightarrow> host_call (Func5 g) env = host_call (Func5 g) env'"
  "(\<And>mem a. h env mem a = h env' mem a) \<Longrightarrow> host_call (Func1 h) env = host_call (Func1 h) env'"
proof -
  show "host_call (Func3 f) env = host_call (Func3 f) env'" if "\<And>mem a b c. f env mem a b c = f env' mem a b c"
  proof (intro ext)
    show "host_call (Func3 f) env mem as = host_call (Func3 f) env' mem as" for mem as
      by (rule host_call.cases [of "(Func3 f, env, mem, as)"]) (auto simp: that)
  qed
  show "host_call (Func5 g) env = host_call (Func5 g) env'" if "\<And>mem a b c d e. g env mem a b c d e = g env' mem a b c d e"
  proof (intro ext)
    show "host_call (Func5 g) env mem as = host_call (Func5 g) env' mem as" for mem as
      by (rule host_call.cases [of "(Func5 g, env, mem, as)"]) (auto simp: that)
  qed
  show "host_call (Func1 h) env = host_call (Func1 h) env'" if "\<And>mem a. h env mem a = h env' mem a"
  proof (intro ext)
    show "host_call (Func1 h) env mem as = host_call (Func1 h) env' mem as" for mem as
      by (rule host_call.cases [of "(Func1 h, env, mem, as)"]) (auto simp: that)
  qed
qed

lemma abi_calls_see_presence:
  assumes "log e1 = log e2" "\<And>t k. get_header_map_value e1 t k = None \<longleftrightarrow> get_header_map_value e2 t k = None" "abi m n = Some f"
  shows "host_call f e1 = host_call f e2"
proof -
  consider "f = Func3 proxy_log" | "f = Func5 proxy_get_header_map_value" | "f = Func1 proxy_continue_stream"
    using assms(3) by (auto simp: abi_def split: if_splits)
  then show ?thesis
  proof cases
    case 1
    then show ?thesis by (auto intro!: host_call_cong) (simp only: proxy_log_def assms(1))
  next
    case 2
    then show ?thesis by (auto intro!: host_call_cong simp: header_call_sees_presence [OF assms(2)])
  next
    case 3
    then show ?thesis by (auto intro!: host_call_cong simp: proxy_continue_stream_def)
  qed
qed

text \<open>The laws hold for a runtime that interprets guests as trees of host calls.\<close>

datatype guest = Finish i32 | Trap string | CallHost string "i32 list" "i32 \<Rightarrow> guest"

type_synonym guest_imports = "string \<Rightarrow> (memory option \<Rightarrow> i32 list \<Rightarrow> i32 outcome option) option"

primrec guest_run :: "guest_imports \<Rightarrow> memory option \<Rightarrow> guest \<Rightarrow> (string + i32) outcome" where
  "guest_run imp mem (Finish x) = Ret (Inr x)"
| "guest_run imp mem (Trap e) = Ret (Inl e)"
| "guest_run imp mem (CallHost n as k) = (case imp n of
       None \<Rightarrow> Ret (Inl ''unknown import'')
     | Some f \<Rightarrow> (case f mem as of
         None \<Rightarrow> Ret (Inl ''type mismatch'')
       | Some r \<Rightarrow> obind r (\<lambda>x. guest_run imp mem (k x))))"

definition guest_wasm :: "guest \<Rightarrow> memory option \<Rightarrow> (string \<Rightarrow> string \<Rightarrow> HostFunc option, guest_imports) ProxyWasm" where
  "guest_wasm g mem = \<lparr>linker_new = (\<lambda>_ _. None),
     func_wrap = (\<lambda>m n f l. case l m n of None \<Rightarrow> Inr (l(m := (l m)(n := Some f))) | Some _ \<Rightarrow> Inl ''defined twice''),
     pw_module = (\<lambda>_. Inr (\<lambda>_. None)),
     pw_instantiate = (\<lambda>l env _. Ret (Inr (\<lambda>n. map_option (\<lambda>f. host_call f env) (l ''env'' n)))),
     pw_func3 = (\<lambda>imp n. if n = ''proxy_on_request_headers'' then Inr imp else Inl ''no such export''),
     pw_call3 = (\<lambda>imp _ _ _. guest_run imp mem g)\<rparr>"

interpretation gw: guest_runtime "guest_wasm g mem" "\<lambda>l. l"
proof unfold_locales
  show "pw_instantiate (guest_wasm g mem) l env w = pw_instantiate (guest_wasm g mem) l env' w"
    if "\<And>m n f. l m n = Some f \<Longrightarrow> host_call f env = host_call f env'" for l env env' w
    using that by (auto simp: guest_wasm_def fun_eq_iff map_option_case split: option.splits)
qed (auto simp: guest_wasm_def)

text \<open>
  Running a Proxy-Wasm module: with the host functions registered, it succeeds exactly when the module
  compiles and links and its request handler, where it has one, returns; the action the handler
  returns, continue or pause, makes no difference.
\<close>

lemma execute_proxy_wasm_outcome:
  assumes "linker P lookup"
  shows "execute_proxy_wasm P bytes env = Ret (Inr ()) \<longleftrightarrow>
     (\<exists>m l i. pw_module P bytes = Inr m \<and> register_proxy_wasm_abi P (linker_new P) = Inr l \<and> lookup l = abi
        \<and> pw_instantiate P l env m = Ret (Inr i) \<and>
        (case pw_func3 P i ''proxy_on_request_headers'' of Inl _ \<Rightarrow> True | Inr f \<Rightarrow> \<exists>action. pw_call3 P f 1 2 3 = Ret (Inr action)))"
proof -
  obtain l where "register_proxy_wasm_abi P (linker_new P) = Inr l" "lookup l = abi" using linker.register_new [OF assms] by blast
  then show ?thesis by (fastforce simp: execute_proxy_wasm_def outcome_simps split: sum.splits)
qed

text \<open>
  C36. Filters never see header values. However a Proxy-Wasm module goes about it, running it gives the same
  outcome in any two environments that answer its log calls alike and have the same headers present: the
  host function that looks a header up tells the guest whether it is there, and nothing of its value.
\<close>

theorem header_values_do_not_reach_guests:
  assumes "guest_runtime P lookup" "log e1 = log e2"
    "\<forall>t k. get_header_map_value e1 t k = None \<longleftrightarrow> get_header_map_value e2 t k = None"
  shows "execute_proxy_wasm P bytes e1 = execute_proxy_wasm P bytes e2"
  using guest_runtime.execute_depends_on_calls [OF assms(1)] abi_calls_see_presence [OF assms(2)] assms(3) by blast

definition header_guest :: guest where
  "header_guest = CallHost ''proxy_get_header_map_value'' [0, 0, 2, 0, 0] (\<lambda>r. if r = 0 then Finish 0 else Trap ''no header'')"

theorem header_values_do_not_reach_guests_witness:
  "let P = guest_wasm header_guest (Some (list_memory [0x69, 0x64]));
       env = (\<lambda>v. \<lparr>log = (\<lambda>_ _. Ok), get_header_map_value = (\<lambda>_ k. if k = [0x69, 0x64] then Some v else None)\<rparr>)
   in execute_proxy_wasm P [] (env [0x31]) = execute_proxy_wasm P [] (env [0x32])"
  unfolding Let_def
  by (rule header_values_do_not_reach_guests [OF gw.guest_runtime_axioms]) (simp_all add: fun_eq_iff)

end
