(* ===== verification/Health.thy ===== *)
theory Health
  imports Routing
begin

text \<open>
  \<open>vortex-proxy/src/health_check/prober.rs\<close>: one round of the background prober, and its task over the ticks
  of its interval. The result of the TCP connect under its timeout is a parameter, per backend.
\<close>

section \<open>Operations\<close>

datatype ProbeResult = Connected | Refused | TimedOut

definition probe_backend :: "(bref \<Rightarrow> ProbeResult) \<Rightarrow> heap \<Rightarrow> bref \<Rightarrow> heap" where
  "probe_backend probe h b =
     (let healthy' = (case probe b of Connected \<Rightarrow> True | _ \<Rightarrow> False);
          was_healthy = is_healthy (h ! b)
      in if healthy' \<noteq> was_healthy then modify b (set_healthy healthy') h else h)"

definition health_round :: "(bref \<Rightarrow> ProbeResult) \<Rightarrow> RoutingTable \<Rightarrow> heap \<Rightarrow> heap" where
  "health_round probe t h = foldl (probe_backend probe) h (snapshot t)"

text \<open>
  The task: each tick comes with the table as it is then and the results of the probes; the first tick
  of the interval, which is immediate, is taken before the loop.
\<close>

definition spawn_health_checker :: "(RoutingTable \<times> (bref \<Rightarrow> ProbeResult)) list \<Rightarrow> heap \<Rightarrow> heap" where
  "spawn_health_checker ticks h = (case ticks of
       [] \<Rightarrow> h
     | _ # rest \<Rightarrow> foldl (\<lambda>h (t, probe). health_round probe t h) h rest)"

section \<open>Lemmas\<close>

lemma set_healthy_same: "healthy b = v \<Longrightarrow> set_healthy v b = b"
  by (cases b) (simp add: set_healthy_def)

lemma probe_backend_eq:
  "b < length h \<Longrightarrow> probe_backend probe h b = h[b := set_healthy (probe b = Connected) (h ! b)]"
  by (auto simp: probe_backend_def modify_def is_healthy_def Let_def set_healthy_same
      split: ProbeResult.splits)

lemma health_foldl:
  assumes "list_all (\<lambda>r. r < length h) bs" "i < length h"
  shows "length (foldl (probe_backend probe) h bs) = length h
    \<and> foldl (probe_backend probe) h bs ! i = (if i \<in> set bs then set_healthy (probe i = Connected) (h ! i) else h ! i)"
  using assms
proof (induction bs arbitrary: h)
  case (Cons b bs)
  have b: "probe_backend probe h b = h[b := set_healthy (probe b = Connected) (h ! b)]"
    using Cons.prems by (simp add: probe_backend_eq)
  from Cons.IH [of "probe_backend probe h b"] Cons.prems show ?case
    by (auto simp: b nth_list_update set_healthy_def)
qed simp

lemma health_round_nth:
  assumes "routing_ok h t" "i < length h"
  shows "length (health_round probe t h) = length h"
    and "health_round probe t h ! i
      = (if i \<in> set (backends t) then set_healthy (probe i = Connected) (h ! i) else h ! i)"
  using health_foldl [of h "backends t" i probe] assms
  by (simp_all add: health_round_def snapshot_def routing_ok_def)

lemma health_round_ok:
  assumes "routing_ok h t"
  shows "routing_ok (health_round probe t h) t"
proof (cases "h = []")
  case True
  with assms have "backends t = []" by (cases "backends t") (auto simp: routing_ok_def)
  with assms show ?thesis by (simp add: health_round_def snapshot_def)
next
  case False
  then have l: "length (health_round probe t h) = length h" using health_round_nth(1) [OF assms, of 0] by simp
  have "backend_ok (health_round probe t h ! i)" if "i < length h" for i
    using health_round_nth(2) [OF assms that, of probe] assms that by (simp add: routing_ok_def list_all_length)
  with l assms show ?thesis by (simp add: routing_ok_def list_all_length)
qed

lemma health_rounds:
  assumes "list_all (\<lambda>(t, probe). routing_ok h t) ticks" "i < length h"
  shows "foldl (\<lambda>h (t, probe). health_round probe t h) h ticks ! i
    = set_healthy (foldl (\<lambda>f (t, probe). if i \<in> set (backends t) then probe i = Connected else f) (healthy (h ! i)) ticks) (h ! i)
    \<and> length (foldl (\<lambda>h (t, probe). health_round probe t h) h ticks) = length h"
  using assms
proof (induction ticks arbitrary: h)
  case Nil
  then show ?case by (simp add: set_healthy_same)
next
  case (Cons r ticks)
  obtain t probe where r: "r = (t, probe)" by fastforce
  let ?h = "health_round probe t h"
  have ok: "routing_ok h t" using Cons.prems(1) r by simp
  note n = health_round_nth [OF ok Cons.prems(2), of probe]
  have "backend_ok b" if "b \<in> set ?h" for b
    using health_round_ok [OF ok, of probe] that by (auto simp: routing_ok_def list_all_iff)
  then have "list_all (\<lambda>(t, probe). routing_ok ?h t) ticks"
    using Cons.prems(1) n(1) by (auto simp: list_all_iff routing_ok_def)
  from Cons.IH [OF this] Cons.prems(2) n show ?case by (auto simp: r set_healthy_def)
qed

section \<open>Properties\<close>

text \<open>
  C38. The prober changes health flags and nothing else: after any number of ticks, with tables that may
  differ from tick to tick, a backend is healthy exactly when its last probe connected, the tick at
  the start does not count, and a backend in no snapshot keeps its flag; latency averages, active
  counts, breakers, addresses and models of all backends stay as they were.
\<close>

theorem health_checker_tracks_last_probe:
  assumes "list_all (\<lambda>(t, probe). routing_ok h t) ticks" "i < length h"
  shows "(spawn_health_checker ticks h ! i)\<lparr>healthy := True\<rparr> = (h ! i)\<lparr>healthy := True\<rparr>
    \<and> is_healthy (spawn_health_checker ticks h ! i)
        = (case filter (\<lambda>(t, probe). i \<in> set (backends t)) (tl ticks) of
             [] \<Rightarrow> is_healthy (h ! i)
           | rs \<Rightarrow> snd (last rs) i = Connected)"
proof (cases ticks)
  case Nil
  then show ?thesis by (simp add: spawn_health_checker_def)
next
  case (Cons r rest)
  have f: "foldl (\<lambda>f (t, probe). if i \<in> set (backends t) then probe i = Connected else f) v rs
      = (case filter (\<lambda>(t, probe). i \<in> set (backends t)) rs of [] \<Rightarrow> v | rs \<Rightarrow> snd (last rs) i = Connected)" for v rs
    by (induction rs arbitrary: v) (auto split: list.splits)
  from health_rounds [of h rest i] assms Cons show ?thesis
    by (simp add: spawn_health_checker_def f set_healthy_def is_healthy_def split: list.split)
qed

theorem health_checker_tracks_last_probe_witness:
  "let probes = (\<lambda>b :: bref. if b = 0 then TimedOut else Connected); t = routing_table_new [0, 1];
       h = spawn_health_checker [(t, \<lambda>_. Refused), (t, \<lambda>_. Refused), (t, probes)] two_backends
   in \<not> is_healthy (h ! 0) \<and> is_healthy (h ! 1)"
proof -
  let ?t = "routing_table_new [0, 1]" and ?p = "\<lambda>b :: bref. if b = 0 then TimedOut else Connected"
  have l: "list_all (\<lambda>(t, probe). routing_ok two_backends t) [(?t, \<lambda>_. Refused), (?t, \<lambda>_. Refused), (?t, ?p)]"
    by (simp add: two_backends_ok [simplified])
  have "length two_backends = 2" by (simp add: two_backends_def)
  then show ?thesis
    using health_checker_tracks_last_probe [OF l, of 0] health_checker_tracks_last_probe [OF l, of 1]
    by (simp add: routing_table_new_def)
qed

end
