(* ===== verification/Server.thy ===== *)
theory Server
  imports Admin Ban_Manager Conn_Pool Telemetry Wasm Health
begin

text \<open>
  \<open>vortex-proxy/src/server.rs\<close>: the request pipeline and the life of a connection. \<open>ServerContext\<close>
  extends the state shared with the control plane by the connection pool, the ban manager, the rate
  store and the metrics. \<open>Deps\<close> holds what is not in the repository or chosen at start-up: the \<open>http\<close>
  crate's checks, Wasmtime, the rate store's check, the XDP limiter, the text of an IPv6 address.
  \<open>RequestEnv\<close> is what one request meets outside: clocks, the state of sockets, the upstream's answer.
  \<open>forward_request\<close> is the whole handler, every early return included; the active-request guard is
  released where it falls out of scope.
\<close>

section \<open>Requests, responses, context\<close>

record Request =
  http_method :: string
  path_and_query :: "string option"
  uri :: string
  req_headers :: HeaderMap

record Response =
  status :: u16
  resp_headers :: "(string \<times> string) list"
  body :: string

record HttpCrate =
  valid_name :: "string \<Rightarrow> bool"
  valid_value :: "string \<Rightarrow> bool"
  to_str_ok :: "string \<Rightarrow> bool"
  valid_uri :: "string \<Rightarrow> bool"

record Metrics =
  requests_total :: "string \<Rightarrow> u64"
  requests_errors_total :: u64
  request_duration_seconds :: "f64 list"

record ('c, 'x, 's) ServerContext = SharedState +
  connection_pool :: "'c ConnectionPool"
  ban_manager :: "'x BanManager"
  rate_store :: 's
  metrics :: Metrics

record ('w, 's, 'x) Deps =
  http :: HttpCrate
  wasmtime :: "'w Wasmtime"
  check_limit :: "rate_env \<Rightarrow> string \<Rightarrow> u64 \<Rightarrow> Duration \<Rightarrow> u64 \<Rightarrow> 's \<Rightarrow> (rate_error + RateLimitResult) \<times> 's"
  xdp :: "'x XdpRateLimiter"
  show_v6 :: "128 word \<Rightarrow> string"

record 'c RequestEnv =
  select_clock :: clock
  failure_clock :: clock
  limit_env :: rate_env
  ban_now :: Instant
  pop_closed :: "'c \<Rightarrow> bool"
  pooled_ready :: "'c \<Rightarrow> bool"
  connect_ok :: bool
  handshake :: "'c option"
  sender_ready :: bool
  send_request :: "'c \<Rightarrow> Request \<Rightarrow> Response option"
  push_closed :: "'c \<Rightarrow> bool"
  rtt_elapsed :: Duration
  rtt_s_elapsed :: Duration
  trace_context :: "(string \<times> string) list"

section \<open>Reading the request\<close>

text \<open>\<open>HeaderExtractor::get\<close>: a header whose value is visible ASCII.\<close>

definition header_str :: "HttpCrate \<Rightarrow> HeaderMap \<Rightarrow> string \<Rightarrow> string option" where
  "header_str H h name = (case header_get h name of
       Some v \<Rightarrow> if to_str_ok H v then Some v else None
     | None \<Rightarrow> None)"

definition extract_ai_metadata :: "HttpCrate \<Rightarrow> Request \<Rightarrow> AiMetadata option" where
  "extract_ai_metadata H req = (case header_str H (req_headers req) ''x-ai-model'' of
       None \<Rightarrow> None
     | Some m \<Rightarrow> Some \<lparr>model = m,
         estimated_tokens = (case header_str H (req_headers req) ''x-ai-estimated-tokens'' of
             None \<Rightarrow> 1
           | Some s \<Rightarrow> (case parse_u64 s of None \<Rightarrow> 1 | Some n \<Rightarrow> n)),
         semantic_hash = header_str H (req_headers req) ''x-ai-semantic-hash''\<rparr>)"

definition request_cost :: "HttpCrate \<Rightarrow> Request \<Rightarrow> u64" where
  "request_cost H req = (case extract_ai_metadata H req of Some ai_meta \<Rightarrow> estimated_tokens ai_meta | None \<Rightarrow> 1)"

definition show_ip :: "(128 word \<Rightarrow> string) \<Rightarrow> IpAddr \<Rightarrow> string" where
  "show_ip show_v6' i = (case i of
       V4 a b c d \<Rightarrow> join_with CHR ''.'' [show_nat (unat a), show_nat (unat b), show_nat (unat c), show_nat (unat d)]
     | V6 w \<Rightarrow> show_v6' w)"

definition show_addr :: "(128 word \<Rightarrow> string) \<Rightarrow> SocketAddr \<Rightarrow> string" where
  "show_addr show_v6' a = (case addr_ip a of
       V4 _ _ _ _ \<Rightarrow> show_ip show_v6' (addr_ip a) @ '':'' @ show_nat (unat (addr_port a))
     | V6 w \<Rightarrow> ''['' @ show_v6' w @ '']:'' @ show_nat (unat (addr_port a)))"

definition rate_key :: "('w, 's, 'x) Deps \<Rightarrow> SocketAddr \<Rightarrow> string" where
  "rate_key D client_addr = ''ip:'' @ show_ip (show_v6 D) (addr_ip client_addr)"

section \<open>Responses of the proxy itself\<close>

definition quoted :: "string \<Rightarrow> string" where
  "quoted s = CHR 0x22 # s @ [CHR 0x22]"

definition unavailable :: "string \<Rightarrow> string \<Rightarrow> Response" where
  "unavailable err msg =
     \<lparr>status = 503, resp_headers = [(''Content-Type'', ''application/json'')],
      body = ''{'' @ quoted ''error'' @ '': '' @ quoted err @ '', '' @ quoted ''message'' @ '': '' @ quoted msg @ ''}''\<rparr>"

definition no_healthy_upstream :: Response where
  "no_healthy_upstream = unavailable ''no_healthy_upstream'' ''All backend servers are currently unavailable.''"

definition connection_failed :: Response where
  "connection_failed = unavailable ''upstream_connection_failed'' ''Failed to establish a connection to the upstream server.''"

definition handshake_failed :: Response where
  "handshake_failed = unavailable ''upstream_handshake_failed'' ''Failed to negotiate HTTP with the upstream server.''"

definition request_failed :: Response where
  "request_failed = unavailable ''upstream_request_failed'' ''Failed to proxy the request to the upstream server.''"

definition too_many_requests :: "RateLimitResult \<Rightarrow> Response" where
  "too_many_requests res =
     \<lparr>status = 429,
      resp_headers = [(''X-RateLimit-Remaining'', ''0''), (''X-RateLimit-Reset'', show_nat (as_millis (reset_after res)))],
      body = ''Rate limit exceeded'' @ [CHR 0x0A]\<rparr>"

section \<open>The pipeline\<close>

definition on_backend :: "bref \<Rightarrow> (Backend \<Rightarrow> Backend) \<Rightarrow> 'a SharedState_scheme \<Rightarrow> 'a SharedState_scheme" where
  "on_backend b f ctx = ctx\<lparr>bheap := modify b f (bheap ctx)\<rparr>"

text \<open>An upstream failure: the breaker counts it and the client gets a 503.\<close>

definition upstream_failure ::
  "clock \<Rightarrow> bref \<Rightarrow> Response \<Rightarrow> ('c, 'x, 's) ServerContext
     \<Rightarrow> ((string + Response) \<times> ('c, 'x, 's) ServerContext) outcome" where
  "upstream_failure clk b response ctx =
     obind (record_failure clk (circuit_breaker (bheap ctx ! b))) (\<lambda>cb.
       Ret (Inr response, on_backend b (\<lambda>x. x\<lparr>circuit_breaker := cb\<rparr>) ctx))"

text \<open>Steps 2 and 3: a pooled sender that is ready, or a new connection; \<open>Inl\<close> is the failure response.\<close>

definition acquire_sender :: "'c RequestEnv \<Rightarrow> 'c option \<Rightarrow> Response + 'c" where
  "acquire_sender env popped =
     (case (case popped of Some s \<Rightarrow> if pooled_ready env s then Some s else None | None \<Rightarrow> None) of
        Some s \<Rightarrow> Inr s
      | None \<Rightarrow>
          if \<not> connect_ok env then Inl connection_failed
          else (case handshake env of None \<Rightarrow> Inl handshake_failed | Some s \<Rightarrow> Inr s))"

text \<open>Step 4: the target, the host header and the trace context of the upstream request.\<close>

definition prepare_request :: "('w, 's, 'x) Deps \<Rightarrow> 'c RequestEnv \<Rightarrow> SocketAddr \<Rightarrow> Request \<Rightarrow> Request outcome" where
  "prepare_request D env upstream_addr req =
     (let uri_string = ''http://'' @ show_addr (show_v6 D) upstream_addr @
            (case path_and_query req of Some p \<Rightarrow> p | None \<Rightarrow> ''/'');
          host = show_addr (show_v6 D) upstream_addr
      in if \<not> valid_uri (http D) uri_string then Panic
         else if \<not> valid_value (http D) host then Panic
         else Ret (req\<lparr>uri := uri_string,
                       req_headers := inject_trace_context (valid_name (http D)) (valid_value (http D)) trace_context env
                          (header_insert (req_headers req) ''host'' host)\<rparr>))"

text \<open>\<open>Duration::as_secs_f64\<close>.\<close>

definition as_secs_f64 :: "Duration \<Rightarrow> f64" where
  "as_secs_f64 d = f64_add (f64_of_nat (d div 1000000000))
     (f64_div (f64_of_nat (d mod 1000000000)) (f64_of_nat 1000000000))"

definition record_metrics :: "string \<Rightarrow> f64 \<Rightarrow> Response \<Rightarrow> Metrics \<Rightarrow> Metrics" where
  "record_metrics req_method rtt_s res m =
     (let m1 = m\<lparr>requests_total := (requests_total m)(req_method := requests_total m req_method + 1),
                 request_duration_seconds := request_duration_seconds m @ [rtt_s]\<rparr>
      in if 500 \<le> status res \<and> status res \<le> 599
         then m1\<lparr>requests_errors_total := requests_errors_total m1 + 1\<rparr> else m1)"

text \<open>What happens after a successful exchange: breaker, pool, latency, metrics.\<close>

definition upstream_success ::
  "'c RequestEnv \<Rightarrow> bref \<Rightarrow> SocketAddr \<Rightarrow> 'c \<Rightarrow> string \<Rightarrow> Response \<Rightarrow> ('c, 'x, 's) ServerContext \<Rightarrow> ('c, 'x, 's) ServerContext" where
  "upstream_success env b upstream_addr sender req_method res ctx =
     (let ctx1 = on_backend b (\<lambda>x. x\<lparr>circuit_breaker := record_success (circuit_breaker x)\<rparr>) ctx;
          ctx2 = ctx1\<lparr>connection_pool := push (push_closed env) upstream_addr sender (connection_pool ctx1)\<rparr>;
          rtt_ms = f64_mul (as_secs_f64 (rtt_elapsed env)) (f64_of_nat 1000);
          rtt_s = as_secs_f64 (rtt_s_elapsed env);
          ctx3 = on_backend b (\<lambda>x. x\<lparr>b_ewma := observe_latency (b_ewma x) rtt_ms\<rparr>) ctx2
      in ctx3\<lparr>metrics := record_metrics req_method rtt_s res (metrics ctx3)\<rparr>)"

definition upstream_exchange ::
  "('w, 's, 'x) Deps \<Rightarrow> 'c RequestEnv \<Rightarrow> Request \<Rightarrow> bref \<Rightarrow> ('c, 'x, 's) ServerContext
     \<Rightarrow> ((string + Response) \<times> ('c, 'x, 's) ServerContext) outcome" where
  "upstream_exchange D env req b ctx =
     (let upstream_addr = addr (bheap ctx ! b);
          (popped, pool) = try_pop (pop_closed env) upstream_addr (connection_pool ctx);
          ctx1 = ctx\<lparr>connection_pool := pool\<rparr>
      in case acquire_sender env popped of
           Inl response \<Rightarrow> upstream_failure (failure_clock env) b response ctx1
         | Inr sender \<Rightarrow>
             obind (prepare_request D env upstream_addr req) (\<lambda>req'.
               if \<not> sender_ready env then Ret (Inl ''Failed to prepare connection sender'', ctx1)
               else (case send_request env sender req' of
                       None \<Rightarrow> upstream_failure (failure_clock env) b request_failed ctx1
                     | Some res \<Rightarrow> Ret (Inr res, upstream_success env b upstream_addr sender (http_method req') res ctx1))))"

text \<open>Steps 1 to 4, with the active-request guard around the exchange.\<close>

definition proxy_upstream ::
  "('w, 's, 'x) Deps \<Rightarrow> 'c RequestEnv \<Rightarrow> Request \<Rightarrow> ('c, 'x, 's) ServerContext
     \<Rightarrow> ((string + Response) \<times> ('c, 'x, 's) ServerContext) outcome" where
  "proxy_upstream D env req ctx =
     obind (select_best_backend (select_clock env) (bheap ctx) (routing_table ctx)) (\<lambda>upstream_backend.
       case upstream_backend of
         None \<Rightarrow> Ret (Inr no_healthy_upstream, ctx)
       | Some b \<Rightarrow>
           obind (upstream_exchange D env req b (on_backend b (\<lambda>x. x\<lparr>b_ewma := increment_active (b_ewma x)\<rparr>) ctx))
             (\<lambda>(r, ctx'). Ret (r, on_backend b (\<lambda>x. x\<lparr>b_ewma := drop_guard (b_ewma x)\<rparr>) ctx')))"

definition forward_request ::
  "('w, 's, 'x) Deps \<Rightarrow> 'c RequestEnv \<Rightarrow> Request \<Rightarrow> SocketAddr \<Rightarrow> ('c, 'x, 's) ServerContext
     \<Rightarrow> ((string + Response) \<times> ('c, 'x, 's) ServerContext) outcome" where
  "forward_request D env req client_addr ctx =
     (if wasm_poisoned ctx then Panic
      else let wasm_result = execute_filter (wasmtime D) (active_wasm_payload ctx);
               cost = request_cost (http D) req;
               (limit_res, store) = check_limit D (limit_env env) (rate_key D client_addr) 1000 (from_secs 60) cost (rate_store ctx);
               ctx1 = ctx\<lparr>rate_store := store\<rparr>
           in case wasm_result of _ \<Rightarrow>
              (case limit_res of
                 Inr res \<Rightarrow>
                   if \<not> allowed res
                   then Ret (Inr (too_many_requests res),
                             ctx1\<lparr>ban_manager := ban_ip (xdp D) (ban_now env) (addr_ip client_addr) (from_secs 300) (ban_manager ctx1)\<rparr>)
                   else proxy_upstream D env req ctx1
               | Inl e \<Rightarrow> proxy_upstream D env req ctx1))"

section \<open>Connections\<close>

text \<open>The \<open>ActiveConnGuard\<close> of a connection task: counted while the task lives.\<close>

definition conn_open :: "'a SharedState_scheme \<Rightarrow> 'a SharedState_scheme" where
  "conn_open ctx = ctx\<lparr>active_connections := active_connections ctx + 1\<rparr>"

definition conn_close :: "'a SharedState_scheme \<Rightarrow> 'a SharedState_scheme" where
  "conn_close ctx = ctx\<lparr>active_connections := active_connections ctx - 1\<rparr>"

text \<open>
  The accept loop of \<open>start_server\<close>: the clients it spawns a task for, and whether it has ended.
\<close>

datatype accept_event = Accepted SocketAddr | AcceptError | ShutdownSignal

fun accept_loop :: "accept_event list \<Rightarrow> SocketAddr list \<times> bool" where
  "accept_loop [] = ([], False)"
| "accept_loop (Accepted client # evs) = (let (cs, done) = accept_loop evs in (client # cs, done))"
| "accept_loop (AcceptError # evs) = accept_loop evs"
| "accept_loop (ShutdownSignal # evs) = ([], True)"

section \<open>Round-trip times\<close>

text \<open>Every duration, up to \<open>Duration::MAX\<close>, is a latency the average accepts.\<close>

lemma rtt_latency:
  assumes "d < 2 ^ 64 * 1000000000"
  shows "latency (f64_mul (as_secs_f64 d) (f64_of_nat 1000))"
proof -
  have "d div 1000000000 \<le> 2 ^ 64" using assms by (simp add: div_le_mono less_imp_le)
  then have "bounded 1074 (1074 + 64) (f64_of_nat (d div 1000000000))" by (rule bounded_of_nat) simp
  then have s: "bounded 1044 1138 (f64_of_nat (d div 1000000000))" by (rule bounded_weaken) simp_all
  have "bounded (1074 - 30) 1074 (f64_div (f64_of_nat (d mod 1000000000)) (f64_of_nat 1000000000))"
    by (rule bounded_div_of_nat) simp_all
  then have n: "bounded 1044 1138 (f64_div (f64_of_nat (d mod 1000000000)) (f64_of_nat 1000000000))"
    by (rule bounded_weaken) simp_all
  have "bounded 1044 1139 (as_secs_f64 d)"
    unfolding as_secs_f64_def using bounded_add [OF s n] by simp
  then have "bounded 1044 (1139 + 10) (f64_mul (as_secs_f64 d) (f64_of_nat 1000))"
    by (rule bounded_mul_of_nat) simp_all
  then have "bounded 53 (1139 + 10) (f64_mul (as_secs_f64 d) (f64_of_nat 1000))"
    by (rule bounded_weaken) simp_all
  then show ?thesis by (auto simp: bounded_def latency_def)
qed

definition env_ok :: "'c RequestEnv \<Rightarrow> bool" where
  "env_ok env \<longleftrightarrow> rtt_elapsed env < 2 ^ 64 * 1000000000"

section \<open>What an exchange does to the backends\<close>

text \<open>Changes of a backend that keep its invariant, its count of active requests and its identity.\<close>

definition balanced :: "(Backend \<Rightarrow> Backend) \<Rightarrow> bool" where
  "balanced f \<longleftrightarrow> (\<forall>x. (backend_ok x \<longrightarrow> backend_ok (f x))
     \<and> active_requests (b_ewma (f x)) = active_requests (b_ewma x)
     \<and> backend_id (f x) = backend_id x \<and> addr (f x) = addr x \<and> healthy (f x) = healthy x \<and> ai_models (f x) = ai_models x)"

lemma balanced_id: "balanced (\<lambda>x. x)"
  by (simp add: balanced_def)

lemma balanced_breaker: "balanced (\<lambda>x. x\<lparr>circuit_breaker := g x\<rparr>)"
  by (simp add: balanced_def)

lemma balanced_observe: "latency rtt \<Longrightarrow> balanced (\<lambda>x. x\<lparr>b_ewma := observe_latency (b_ewma x) rtt\<rparr>)"
  by (simp add: balanced_def backend_ok_observe frame_simps)

lemma balanced_comp: "balanced f \<Longrightarrow> balanced g \<Longrightarrow> balanced (\<lambda>x. f (g x))"
  by (simp add: balanced_def)

text \<open>With the guard taken before and released after, the whole change is balanced.\<close>

lemma balanced_guarded:
  assumes "balanced f"
  shows "balanced (\<lambda>x. let y = f (x\<lparr>b_ewma := increment_active (b_ewma x)\<rparr>)
                       in y\<lparr>b_ewma := drop_guard (b_ewma y)\<rparr>)"
proof -
  have "active_requests (drop_guard e) = active_requests e - 1" "active_requests (increment_active e) = active_requests e + 1"
    for e by (simp_all add: ewma_defs)
  with assms show ?thesis by (simp add: balanced_def Let_def)
qed

lemma modify_modify: "modify b f (modify b g h) = modify b (\<lambda>x. f (g x)) h"
  by (cases "b < length h") (simp_all add: modify_def list_update_beyond)

lemma length_modify [simp]: "length (modify b f h) = length h"
  by (simp add: modify_def)

lemma nth_modify: "i < length h \<Longrightarrow> modify b f h ! i = (if i = b then f (h ! i) else h ! i)"
  by (simp add: modify_def nth_list_update)

lemma routing_ok_balanced: "routing_ok h t \<Longrightarrow> balanced f \<Longrightarrow> routing_ok (modify b f h) t"
  by (rule routing_ok_modify) (simp_all add: balanced_def)

text \<open>The fields of the context that the upstream part of a request leaves alone.\<close>

definition same_rest :: "('c, 'x, 's) ServerContext \<Rightarrow> ('c, 'x, 's) ServerContext \<Rightarrow> bool" where
  "same_rest ctx ctx' \<longleftrightarrow> routing_table ctx' = routing_table ctx \<and> active_connections ctx' = active_connections ctx
     \<and> active_wasm_payload ctx' = active_wasm_payload ctx \<and> wasm_poisoned ctx' = wasm_poisoned ctx
     \<and> ban_manager ctx' = ban_manager ctx \<and> rate_store ctx' = rate_store ctx"

lemma on_backend_simps [simp]:
  "bheap (on_backend b f ctx) = modify b f (bheap ctx)" "routing_table (on_backend b f ctx) = routing_table ctx"
  "active_connections (on_backend b f ctx) = active_connections ctx"
  "active_wasm_payload (on_backend b f ctx) = active_wasm_payload ctx"
  "wasm_poisoned (on_backend b f ctx) = wasm_poisoned ctx"
  by (simp_all add: on_backend_def)

lemma on_backend_ctx_simps [simp]:
  fixes ctx :: "('c, 'x, 's) ServerContext"
  shows "connection_pool (on_backend b f ctx) = connection_pool ctx" "ban_manager (on_backend b f ctx) = ban_manager ctx"
    "rate_store (on_backend b f ctx) = rate_store ctx" "metrics (on_backend b f ctx) = metrics ctx"
  by (simp_all add: on_backend_def)

lemma upstream_failure_effect:
  assumes "upstream_failure clk b resp ctx = Ret (r, ctx')"
  shows "\<exists>f. balanced f \<and> bheap ctx' = modify b f (bheap ctx)" and "same_rest ctx ctx'"
proof -
  obtain cb where c: "ctx' = on_backend b (\<lambda>x. x\<lparr>circuit_breaker := cb\<rparr>) ctx"
    using assms by (auto simp: upstream_failure_def outcome_simps)
  then show "\<exists>f. balanced f \<and> bheap ctx' = modify b f (bheap ctx)"
    using balanced_breaker [of "\<lambda>_. cb"] by (intro exI [of _ "\<lambda>x. x\<lparr>circuit_breaker := cb\<rparr>"]) simp
  show "same_rest ctx ctx'" by (simp add: c same_rest_def)
qed

lemma upstream_success_effect:
  assumes "env_ok env"
  shows "\<exists>f. balanced f \<and> bheap (upstream_success env b a c m res ctx) = modify b f (bheap ctx)"
    and "same_rest ctx (upstream_success env b a c m res ctx)"
proof -
  let ?rtt = "f64_mul (as_secs_f64 (rtt_elapsed env)) (f64_of_nat 1000)"
  have "balanced (\<lambda>x. x\<lparr>b_ewma := observe_latency (b_ewma x) ?rtt\<rparr>)"
    using assms by (intro balanced_observe rtt_latency) (simp add: env_ok_def)
  then have "balanced (\<lambda>x. (x\<lparr>circuit_breaker := record_success (circuit_breaker x)\<rparr>)
      \<lparr>b_ewma := observe_latency (b_ewma (x\<lparr>circuit_breaker := record_success (circuit_breaker x)\<rparr>)) ?rtt\<rparr>)"
    by (rule balanced_comp) (rule balanced_breaker)
  then show "\<exists>f. balanced f \<and> bheap (upstream_success env b a c m res ctx) = modify b f (bheap ctx)"
    by (fastforce simp: upstream_success_def Let_def modify_modify)
  show "same_rest ctx (upstream_success env b a c m res ctx)"
    by (simp add: upstream_success_def Let_def same_rest_def)
qed

lemma upstream_exchange_effect:
  assumes "upstream_exchange D env req b ctx = Ret (r, ctx')" "env_ok env"
  shows "(\<exists>f. balanced f \<and> bheap ctx' = modify b f (bheap ctx)) \<and> same_rest ctx ctx'"
proof -
  obtain popped pool where pop: "try_pop (pop_closed env) (addr (bheap ctx ! b)) (connection_pool ctx) = (popped, pool)"
    by fastforce
  let ?ctx1 = "ctx\<lparr>connection_pool := pool\<rparr>"
  have rest: "same_rest ?ctx1 c = same_rest ctx c" "bheap ?ctx1 = bheap ctx" for c by (simp_all add: same_rest_def)
  show ?thesis
  proof (cases "acquire_sender env popped")
    case (Inl resp)
    with assms(1) have "upstream_failure (failure_clock env) b resp ?ctx1 = Ret (r, ctx')"
      by (simp add: upstream_exchange_def pop)
    from upstream_failure_effect [OF this] rest show ?thesis by simp
  next
    case (Inr sender)
    with assms(1) obtain req' where body: "(if \<not> sender_ready env then Ret (Inl ''Failed to prepare connection sender'', ?ctx1)
         else (case send_request env sender req' of
                 None \<Rightarrow> upstream_failure (failure_clock env) b request_failed ?ctx1
               | Some res \<Rightarrow> Ret (Inr res, upstream_success env b (addr (bheap ctx ! b)) sender (http_method req') res ?ctx1)))
         = Ret (r, ctx')"
      by (fastforce simp: upstream_exchange_def pop outcome_simps Let_def)
    consider "ctx' = ?ctx1" | "upstream_failure (failure_clock env) b request_failed ?ctx1 = Ret (r, ctx')"
      | res where "ctx' = upstream_success env b (addr (bheap ctx ! b)) sender (http_method req') res ?ctx1"
      using body by (auto split: if_splits option.splits)
    then show ?thesis
    proof cases
      case 1
      have "modify b (\<lambda>x. x) (bheap ctx) = bheap ctx" by (simp add: modify_def)
      with 1 balanced_id show ?thesis by (metis rest same_rest_def)
    next
      case 2
      from upstream_failure_effect [OF 2] rest show ?thesis by simp
    next
      case 3
      with upstream_success_effect [OF assms(2), where ctx = ?ctx1 and b = b] rest show ?thesis by simp
    qed
  qed
qed

lemma proxy_upstream_effect:
  assumes "proxy_upstream D env req ctx = Ret (r, ctx')" "env_ok env"
  shows "(\<exists>b f. balanced f \<and> bheap ctx' = modify b f (bheap ctx)) \<and> same_rest ctx ctx'"
proof -
  obtain sel where sel: "select_best_backend (select_clock env) (bheap ctx) (routing_table ctx) = Ret sel"
    using assms(1) by (auto simp: proxy_upstream_def outcome_simps)
  show ?thesis
  proof (cases sel)
    case None
    with assms(1) sel have "ctx' = ctx" by (simp add: proxy_upstream_def)
    moreover have "modify 0 (\<lambda>x. x) (bheap ctx) = bheap ctx" by (simp add: modify_def)
    ultimately show ?thesis using balanced_id by (metis same_rest_def)
  next
    case (Some b)
    let ?inc = "\<lambda>x. x\<lparr>b_ewma := increment_active (b_ewma x)\<rparr>" and ?dec = "\<lambda>x. x\<lparr>b_ewma := drop_guard (b_ewma x)\<rparr>"
    from assms(1) sel Some obtain ctx2 where ex: "upstream_exchange D env req b (on_backend b ?inc ctx) = Ret (r, ctx2)"
      "ctx' = on_backend b ?dec ctx2"
      by (auto simp: proxy_upstream_def outcome_simps)
    from upstream_exchange_effect [OF ex(1) assms(2)] obtain f where
      f: "balanced f" "bheap ctx2 = modify b f (modify b ?inc (bheap ctx))" "same_rest ctx ctx2"
      by (auto simp: same_rest_def)
    then have "bheap ctx' = modify b (\<lambda>x. let y = f (?inc x) in ?dec y) (bheap ctx)"
      by (simp add: ex(2) modify_modify Let_def)
    with balanced_guarded [OF f(1)] f(3) show ?thesis by (auto simp: ex(2) same_rest_def)
  qed
qed

lemma forward_request_split:
  assumes "\<not> wasm_poisoned ctx"
    and "check_limit D (limit_env env) (rate_key D client) 1000 (from_secs 60) (request_cost (http D) req) (rate_store ctx) = (lim, store)"
  shows "forward_request D env req client ctx =
    (case lim of
       Inr res \<Rightarrow> if allowed res then proxy_upstream D env req (ctx\<lparr>rate_store := store\<rparr>)
         else Ret (Inr (too_many_requests res),
           ctx\<lparr>rate_store := store,
               ban_manager := ban_ip (xdp D) (ban_now env) (addr_ip client) (from_secs 300) (ban_manager ctx)\<rparr>)
     | Inl e \<Rightarrow> proxy_upstream D env req (ctx\<lparr>rate_store := store\<rparr>))"
  using assms by (simp add: forward_request_def split: sum.splits)

section \<open>No panic\<close>

text \<open>
  The surroundings in which the handler cannot panic: clocks after the epoch, the lock not poisoned,
  and the \<open>http\<close> crate accepting the target and host made from a socket address and the path it
  parsed itself.
\<close>

definition sane :: "('w, 's, 'x) Deps \<Rightarrow> 'c RequestEnv \<Rightarrow> Request \<Rightarrow> ('c, 'x, 's) ServerContext \<Rightarrow> bool" where
  "sane D env req ctx \<longleftrightarrow> env_ok env \<and> select_clock env \<noteq> None \<and> failure_clock env \<noteq> None \<and> \<not> wasm_poisoned ctx
     \<and> list_all (\<lambda>b. valid_uri (http D) (''http://'' @ show_addr (show_v6 D) (addr b) @
           (case path_and_query req of Some p \<Rightarrow> p | None \<Rightarrow> ''/''))
         \<and> valid_value (http D) (show_addr (show_v6 D) (addr b))) (bheap ctx)"

lemma record_failure_Some: "\<exists>cb'. record_failure (Some t) cb = Ret cb'"
  by (simp add: record_failure_def Let_def)

lemma upstream_failure_returns: "\<exists>r. upstream_failure (Some t) b resp ctx = Ret r"
  using record_failure_Some [of t "circuit_breaker (bheap ctx ! b)"] by (auto simp: upstream_failure_def)

lemma select_best_backend_returns:
  "routing_ok h t \<Longrightarrow> \<exists>r. select_best_backend (Some now) h t = Ret r \<and> (\<forall>b. r = Some b \<longrightarrow> b < length h)"
  by (auto simp: selection_simps routing_ok_def list_all_iff dest!: min_by_in)

lemma prepare_request_returns:
  assumes "valid_uri (http D) (''http://'' @ show_addr (show_v6 D) a @ (case path_and_query req of Some p \<Rightarrow> p | None \<Rightarrow> ''/''))"
    and "valid_value (http D) (show_addr (show_v6 D) a)"
  shows "\<exists>req'. prepare_request D env a req = Ret req'"
  using assms by (simp add: prepare_request_def Let_def)

lemma upstream_exchange_returns:
  assumes "failure_clock env = Some t" "\<exists>req'. prepare_request D env (addr (bheap ctx ! b)) req = Ret req'"
  shows "\<exists>r. upstream_exchange D env req b ctx = Ret r"
proof -
  obtain req' where req': "prepare_request D env (addr (bheap ctx ! b)) req = Ret req'" using assms(2) by blast
  show ?thesis
    using upstream_failure_returns [of t b]
    by (auto simp: upstream_exchange_def assms(1) req' Let_def split_beta split: sum.split option.split)
qed

lemma proxy_upstream_returns:
  assumes "sane D env req ctx" "shared_ok ctx"
  shows "\<exists>r. proxy_upstream D env req ctx = Ret r"
proof -
  obtain now t where clk: "select_clock env = Some now" "failure_clock env = Some t" using assms(1) by (auto simp: sane_def)
  obtain sel where sel: "select_best_backend (Some now) (bheap ctx) (routing_table ctx) = Ret sel"
    "\<And>b. sel = Some b \<Longrightarrow> b < length (bheap ctx)"
    using select_best_backend_returns assms(2) by (fastforce simp: shared_ok_def)
  show ?thesis
  proof (cases sel)
    case (Some b)
    let ?inc = "\<lambda>x. x\<lparr>b_ewma := increment_active (b_ewma x)\<rparr>"
    have b: "b < length (bheap ctx)" using sel(2) Some by simp
    then have "addr (bheap (on_backend b ?inc ctx) ! b) = addr (bheap ctx ! b)" by (simp add: nth_modify)
    moreover have "\<exists>req'. prepare_request D env (addr (bheap ctx ! b)) req = Ret req'"
      using assms(1) b by (intro prepare_request_returns) (simp_all add: sane_def list_all_length)
    ultimately obtain r where "upstream_exchange D env req b (on_backend b ?inc ctx) = Ret r"
      using upstream_exchange_returns [OF clk(2), of D "on_backend b ?inc ctx" b req] by auto
    then show ?thesis using sel(1) Some by (cases r) (simp add: proxy_upstream_def clk)
  qed (use sel(1) in \<open>simp add: proxy_upstream_def clk\<close>)
qed

lemma proxy_upstream_ok:
  assumes "proxy_upstream D env req ctx = Ret (r, ctx')" "env_ok env" "shared_ok ctx"
  shows "shared_ok ctx'"
  using proxy_upstream_effect [OF assms(1,2)] assms(3) routing_ok_balanced
  by (auto simp: shared_ok_def same_rest_def)

text \<open>What a backend is to everyone but the breaker and the latency average.\<close>

definition backend_face :: "Backend \<Rightarrow> u64 \<times> u32 \<times> SocketAddr \<times> bool \<times> string list" where
  "backend_face b = (active_requests (b_ewma b), backend_id b, addr b, healthy b, ai_models b)"

definition same_shared :: "('c, 'x, 's) ServerContext \<Rightarrow> ('c, 'x, 's) ServerContext \<Rightarrow> bool" where
  "same_shared ctx ctx' \<longleftrightarrow> routing_table ctx' = routing_table ctx \<and> active_connections ctx' = active_connections ctx
     \<and> active_wasm_payload ctx' = active_wasm_payload ctx \<and> wasm_poisoned ctx' = wasm_poisoned ctx
     \<and> map backend_face (bheap ctx') = map backend_face (bheap ctx)"

lemma proxy_upstream_same:
  assumes "proxy_upstream D env req ctx = Ret (r, ctx')" "env_ok env"
  shows "same_shared ctx ctx' \<and> ban_manager ctx' = ban_manager ctx"
proof -
  obtain b f where f: "balanced f" "bheap ctx' = modify b f (bheap ctx)" "same_rest ctx ctx'"
    using proxy_upstream_effect [OF assms] by auto
  have "map backend_face (bheap ctx') = map backend_face (bheap ctx)"
    using f(1,2) by (auto simp: list_eq_iff_nth_eq nth_modify balanced_def backend_face_def)
  with f(3) show ?thesis by (simp add: same_shared_def same_rest_def)
qed

lemma forward_request_effect:
  assumes "forward_request D env req client ctx = Ret (r, ctx')" "env_ok env" "shared_ok ctx"
  shows "shared_ok ctx' \<and> same_shared ctx ctx' \<and>
    (ban_manager ctx' = ban_manager ctx
     \<or> ban_manager ctx' = ban_ip (xdp D) (ban_now env) (addr_ip client) (from_secs 300) (ban_manager ctx))"
proof -
  obtain lim store where c:
    "check_limit D (limit_env env) (rate_key D client) 1000 (from_secs 60) (request_cost (http D) req) (rate_store ctx) = (lim, store)"
    by fastforce
  have np: "\<not> wasm_poisoned ctx" using assms(1) by (auto simp: forward_request_def split: if_splits)
  have ok1: "shared_ok (ctx\<lparr>rate_store := store\<rparr>)" using assms(3) by (simp add: shared_ok_def)
  consider "proxy_upstream D env req (ctx\<lparr>rate_store := store\<rparr>) = Ret (r, ctx')"
    | "ctx' = ctx\<lparr>rate_store := store,
         ban_manager := ban_ip (xdp D) (ban_now env) (addr_ip client) (from_secs 300) (ban_manager ctx)\<rparr>"
    using assms(1) unfolding forward_request_split [OF np c] by (auto split: sum.splits if_splits)
  then show ?thesis
  proof cases
    case 1
    from proxy_upstream_same [OF 1 assms(2)] proxy_upstream_ok [OF 1 assms(2) ok1] show ?thesis
      by (simp add: same_shared_def)
  next
    case 2
    with ok1 show ?thesis by (simp add: same_shared_def shared_ok_def)
  qed
qed

lemma forward_request_returns:
  assumes "sane D env req ctx" "shared_ok ctx"
  shows "\<exists>r ctx'. forward_request D env req client ctx = Ret (r, ctx')"
proof -
  obtain lim store where c:
    "check_limit D (limit_env env) (rate_key D client) 1000 (from_secs 60) (request_cost (http D) req) (rate_store ctx) = (lim, store)"
    by fastforce
  have np: "\<not> wasm_poisoned ctx" using assms(1) by (simp add: sane_def)
  have "shared_ok (ctx\<lparr>rate_store := store\<rparr>)" "sane D env req (ctx\<lparr>rate_store := store\<rparr>)"
    using assms by (simp_all add: shared_ok_def sane_def)
  then obtain r where "proxy_upstream D env req (ctx\<lparr>rate_store := store\<rparr>) = Ret r"
    using proxy_upstream_returns by blast
  then show ?thesis unfolding forward_request_split [OF np c] by (cases r) (auto split: sum.split)
qed

section \<open>An example system\<close>

definition demo_http :: HttpCrate where
  "demo_http = \<lparr>valid_name = (\<lambda>_. True), valid_value = (\<lambda>_. True), to_str_ok = (\<lambda>_. True), valid_uri = (\<lambda>_. True)\<rparr>"

definition demo_wasmtime :: "unit Wasmtime" where
  "demo_wasmtime = \<lparr>wt_module = (\<lambda>_. Inr ()), wt_instance = (\<lambda>_. Inr ()),
     wt_func0 = (\<lambda>_ _. Inr ()), wt_call0 = (\<lambda>_. Inr 200)\<rparr>"

text \<open>The proxy's Redis store and the in-memory limiter.\<close>

definition demo_deps :: "(unit, redis_map, MockXdpLimiter) Deps" where
  "demo_deps = \<lparr>http = demo_http, wasmtime = demo_wasmtime, check_limit = check_rate_limit map_redis,
     xdp = mock_xdp, show_v6 = (\<lambda>w. ''v6'')\<rparr>"

definition demo_env :: "nat RequestEnv" where
  "demo_env = \<lparr>select_clock = Some 1000, failure_clock = Some 1000, limit_env = env_at 1700000000000, ban_now = 0, pop_closed = (\<lambda>_. False),
     pooled_ready = (\<lambda>_. True), connect_ok = True, handshake = Some 1, sender_ready = True,
     send_request = (\<lambda>c req. Some \<lparr>status = 200, resp_headers = [], body = ''ok''\<rparr>), push_closed = (\<lambda>_. False),
     rtt_elapsed = from_millis 20, rtt_s_elapsed = from_millis 20, trace_context = []\<rparr>"

definition demo_ctx :: "(nat, MockXdpLimiter, redis_map) ServerContext" where
  "demo_ctx = \<lparr>bheap = [backend_new 1 (SocketAddr (V4 127 0 0 1) 9090)], routing_table = routing_table_new [0],
     active_connections = 1, active_wasm_payload = [1], wasm_poisoned = False,
     connection_pool = pool_new, ban_manager = ban_manager_new (Some mock_new), rate_store = Map.empty,
     metrics = \<lparr>requests_total = (\<lambda>_. 0), requests_errors_total = 0, request_duration_seconds = []\<rparr>\<rparr>"

definition demo_request :: Request where
  "demo_request = \<lparr>http_method = ''GET'', path_and_query = Some ''/v1'', uri = ''/v1'', req_headers = (\<lambda>_. [])\<rparr>"

definition demo_client :: SocketAddr where
  "demo_client = SocketAddr (V4 203 0 113 42) 50000"

lemma demo_ctx_ok: "shared_ok demo_ctx"
  by (simp add: shared_ok_def demo_ctx_def routing_ok_def routing_table_new_def)

lemma demo_sane: "sane demo_deps demo_env req demo_ctx"
  by (simp add: sane_def env_ok_def demo_env_def demo_deps_def demo_http_def demo_ctx_def from_millis_def)

section \<open>Properties of the pipeline\<close>

text \<open>
  C6. The handler is total and leaves the system sound. In sane surroundings every request, whatever
  the rate store, the sockets and the upstream do, returns a response or an error without a panic;
  the invariant of the shared state holds again; the table, the payload and the connection count
  are untouched; and every backend has the number of active requests, the address, the health flag
  and the models it had before: the guard is released on every path.
\<close>

theorem forward_request_total_and_balanced:
  assumes "sane D env req ctx" "shared_ok ctx"
  shows "\<exists>r ctx'. forward_request D env req client ctx = Ret (r, ctx') \<and> shared_ok ctx'
    \<and> routing_table ctx' = routing_table ctx \<and> active_connections ctx' = active_connections ctx
    \<and> active_wasm_payload ctx' = active_wasm_payload ctx \<and> wasm_poisoned ctx' = wasm_poisoned ctx
    \<and> map (\<lambda>b. (active_requests (b_ewma b), backend_id b, addr b, healthy b, ai_models b)) (bheap ctx')
      = map (\<lambda>b. (active_requests (b_ewma b), backend_id b, addr b, healthy b, ai_models b)) (bheap ctx)"
proof -
  obtain r ctx' where f: "forward_request D env req client ctx = Ret (r, ctx')"
    using forward_request_returns [OF assms] by blast
  have "env_ok env" using assms(1) by (simp add: sane_def)
  from forward_request_effect [OF f this assms(2)] f show ?thesis
    by (auto simp: same_shared_def backend_face_def [abs_def])
qed

theorem forward_request_total_and_balanced_witness:
  "\<exists>r ctx'. forward_request demo_deps demo_env demo_request demo_client demo_ctx = Ret (r, ctx')
     \<and> shared_ok ctx' \<and> routing_table ctx' = routing_table demo_ctx"
  using forward_request_total_and_balanced [OF demo_sane demo_ctx_ok, of demo_request demo_client] by blast

text \<open>
  C37. The WebAssembly filter decides nothing: whatever the engine, its errors and the exit code of the
  plugin, the response to a request and the state after it are the same.
\<close>

theorem wasm_filter_has_no_effect:
  fixes D :: "('w, 's, 'x) Deps" and env :: "'c RequestEnv"
  shows "forward_request (D\<lparr>wasmtime := W\<rparr>) env req client ctx = forward_request (D\<lparr>wasmtime := W'\<rparr>) env req client ctx"
proof -
  have prep: "prepare_request (D\<lparr>wasmtime := V\<rparr>) env a q = prepare_request D env a q" for V a q
    by (simp add: prepare_request_def Let_def)
  have ex: "upstream_exchange (D\<lparr>wasmtime := V\<rparr>) env q b c = upstream_exchange D env q b c" for V q b c
    unfolding upstream_exchange_def prep ..
  have px: "proxy_upstream (D\<lparr>wasmtime := V\<rparr>) env q c = proxy_upstream D env q c" for V q c
    unfolding proxy_upstream_def ex ..
  show ?thesis by (simp add: forward_request_def px rate_key_def split_beta Let_def split: sum.split)
qed

text \<open>
  Separate clients have separate budgets: the rate-limit keys of two IPv4 clients are equal exactly
  when their addresses are, whatever their ports.
\<close>

lemma rate_key_separates_clients:
  "rate_key D (SocketAddr (V4 a b c d) p) = rate_key D (SocketAddr (V4 a' b' c' d') p')
     \<longleftrightarrow> a = a' \<and> b = b' \<and> c = c' \<and> d = d'"
proof
  assume eq: "rate_key D (SocketAddr (V4 a b c d) p) = rate_key D (SocketAddr (V4 a' b' c' d') p')"
  have no_dot: "CHR ''.'' \<notin> set (show_nat n)" for n
  proof
    assume "CHR ''.'' \<in> set (show_nat n)"
    then obtain d where d: "d < 10" "CHR ''.'' = digit d" using show_nat_digits by blast
    from d(2) have "(of_char CHR ''.'' :: nat) = of_char (digit d)" by (simp only:)
    then show False using d(1) by simp
  qed
  have inj: "show_nat (unat x) = show_nat (unat y) \<Longrightarrow> x = y" for x y :: u8
    using show_nat_inject [of "unat x" "unat y"] unat_u8 [of x] unat_u8 [of y] by (simp add: word_unat_eq_iff)
  have sp: "split_on CHR ''.'' (join_with CHR ''.'' [show_nat i, show_nat j, show_nat k, show_nat l])
      = [show_nat i, show_nat j, show_nat k, show_nat l]" for i j k l
    by (rule split_on_join_with) (auto simp: no_dot)
  from eq have "join_with CHR ''.'' [show_nat (unat a), show_nat (unat b), show_nat (unat c), show_nat (unat d)]
      = join_with CHR ''.'' [show_nat (unat a'), show_nat (unat b'), show_nat (unat c'), show_nat (unat d')]"
    unfolding rate_key_def show_ip_def by simp
  then have "[show_nat (unat a), show_nat (unat b), show_nat (unat c), show_nat (unat d)]
      = [show_nat (unat a'), show_nat (unat b'), show_nat (unat c'), show_nat (unat d')]" by (metis sp)
  then show "a = a' \<and> b = b' \<and> c = c' \<and> d = d'" using inj by simp
qed (simp add: rate_key_def show_ip_def)

text \<open>
  The cost of a request. A request that names an AI model and announces \<open>n\<close> tokens in decimal costs
  exactly \<open>n\<close>, zero included; one that names a model with no readable announcement, and one that
  names no model, whatever it announces, costs 1.
\<close>

lemma request_cost_spec:
  assumes "\<And>v. to_str_ok H v" "req_headers req ''x-ai-model'' = m # ms"
    and "req_headers req ''x-ai-estimated-tokens'' = show_nat (unat n) # vs"
  shows "request_cost H req = n
    \<and> request_cost H (req\<lparr>req_headers := (req_headers req)(''x-ai-estimated-tokens'' := [])\<rparr>) = 1
    \<and> request_cost H (req\<lparr>req_headers := (req_headers req)(''x-ai-model'' := [])\<rparr>) = 1"
proof -
  have low: "to_lowercase ''x-ai-model'' = ''x-ai-model''" "to_lowercase ''x-ai-estimated-tokens'' = ''x-ai-estimated-tokens''"
    by (simp_all add: to_lowercase_def lower_char_def)
  show ?thesis
    using assms by (simp add: request_cost_def extract_ai_metadata_def header_str_def header_get_def low parse_u64_show_u64)
qed

definition ai_request :: "nat \<Rightarrow> Request" where
  "ai_request n = demo_request\<lparr>req_headers := (\<lambda>_. [])(''x-ai-model'' := [''gpt-4''], ''x-ai-estimated-tokens'' := [show_nat n])\<rparr>"

lemma ai_request_cost: "request_cost demo_http (ai_request (unat n)) = n"
proof -
  have "header_str demo_http (req_headers (ai_request k)) ''x-ai-model'' = Some ''gpt-4''"
    "header_str demo_http (req_headers (ai_request k)) ''x-ai-estimated-tokens'' = Some (show_nat k)" for k
    by (simp_all add: header_str_def header_get_def ai_request_def demo_http_def to_lowercase_def lower_char_def)
  then show ?thesis by (simp add: request_cost_def extract_ai_metadata_def parse_u64_show_u64)
qed

text \<open>Header values the trace injection does not name are kept.\<close>

lemma inject_other:
  "name \<notin> (\<lambda>kv. to_lowercase (fst kv)) ` set kvs \<Longrightarrow>
     foldl (injector_set vn vv) h kvs name = h name"
proof (induction kvs arbitrary: h)
  case (Cons kv kvs)
  then show ?case by (simp add: injector_set_def header_insert_def)
qed simp

text \<open>
  C33. What reaches the upstream: the verb and the path of the client's request, a target and a host
  header naming the chosen backend, and every client header that is neither the host header nor
  one the trace propagator sets, value for value.
\<close>

theorem upstream_request_preserves:
  assumes "prepare_request D env a req = Ret req'"
    and "name \<noteq> ''host''" "name \<notin> (\<lambda>kv. to_lowercase (fst kv)) ` set (trace_context env)"
  shows "req_headers req' name = req_headers req name \<and> http_method req' = http_method req
    \<and> uri req' = ''http://'' @ show_addr (show_v6 D) a @ (case path_and_query req of Some p \<Rightarrow> p | None \<Rightarrow> ''/'')
    \<and> (''host'' \<notin> (\<lambda>kv. to_lowercase (fst kv)) ` set (trace_context env) \<longrightarrow>
         req_headers req' ''host'' = [show_addr (show_v6 D) a])"
proof -
  have low: "to_lowercase ''host'' = ''host''" by (simp add: to_lowercase_def lower_char_def)
  have r: "req' = req\<lparr>uri := ''http://'' @ show_addr (show_v6 D) a @ (case path_and_query req of Some p \<Rightarrow> p | None \<Rightarrow> ''/''),
      req_headers := foldl (injector_set (valid_name (http D)) (valid_value (http D)))
        (header_insert (req_headers req) ''host'' (show_addr (show_v6 D) a)) (trace_context env)\<rparr>"
    using assms(1) by (simp add: prepare_request_def inject_trace_context_def Let_def split: if_splits)
  show ?thesis
    unfolding r using inject_other [OF assms(3)] inject_other [of "''host''" "trace_context env"] assms(2)
    by (simp add: header_insert_def low)
qed

theorem upstream_request_preserves_witness:
  "\<exists>req'. prepare_request demo_deps (demo_env\<lparr>trace_context := [(''traceparent'', ''00'')]\<rparr>) addr_a (ai_request 5) = Ret req'
     \<and> req_headers req' ''x-ai-model'' = [''gpt-4'']"
proof -
  let ?env = "demo_env\<lparr>trace_context := [(''traceparent'', ''00'')]\<rparr>"
  obtain req' where p: "prepare_request demo_deps ?env addr_a (ai_request 5) = Ret req'"
    by (simp add: prepare_request_def demo_deps_def demo_http_def Let_def)
  have "''x-ai-model'' \<notin> (\<lambda>kv. to_lowercase (fst kv)) ` set (trace_context ?env)"
    by (simp add: to_lowercase_def lower_char_def)
  from upstream_request_preserves [OF p _ this] have "req_headers req' ''x-ai-model'' = [''gpt-4'']"
    by (simp add: ai_request_def)
  with p show ?thesis by blast
qed

section \<open>Accounting of upstream outcomes\<close>

text \<open>What can become of a request once a backend is chosen.\<close>

datatype 'c fate = Unreachable Response | Unprepared | Unsent | Answered 'c Response

definition upstream_fate :: "'c RequestEnv \<Rightarrow> 'c option \<Rightarrow> Request \<Rightarrow> 'c fate" where
  "upstream_fate env popped req' = (case acquire_sender env popped of
       Inl resp \<Rightarrow> Unreachable resp
     | Inr s \<Rightarrow> if \<not> sender_ready env then Unprepared
                else (case send_request env s req' of None \<Rightarrow> Unsent | Some res \<Rightarrow> Answered s res))"

definition fate_reply :: "'c fate \<Rightarrow> string + Response" where
  "fate_reply ft = (case ft of
       Unreachable resp \<Rightarrow> Inr resp
     | Unprepared \<Rightarrow> Inl ''Failed to prepare connection sender''
     | Unsent \<Rightarrow> Inr request_failed
     | Answered _ res \<Rightarrow> Inr res)"

definition fate_failures :: "'c fate \<Rightarrow> usize \<Rightarrow> usize" where
  "fate_failures ft n = (case ft of Unreachable _ \<Rightarrow> n + 1 | Unprepared \<Rightarrow> n | Unsent \<Rightarrow> n + 1 | Answered _ _ \<Rightarrow> 0)"

definition fate_answered :: "'c fate \<Rightarrow> bool" where
  "fate_answered ft = (case ft of Answered _ _ \<Rightarrow> True | _ \<Rightarrow> False)"

lemma upstream_failure_Some:
  assumes "b < length (bheap ctx)"
  shows "\<exists>cb. upstream_failure (Some t) b resp ctx = Ret (Inr resp, on_backend b (\<lambda>x. x\<lparr>circuit_breaker := cb\<rparr>) ctx)
    \<and> failures cb = failures (circuit_breaker (bheap ctx ! b)) + 1"
  by (auto simp: upstream_failure_def record_failure_def Let_def)

lemmas fate_simps = fate_reply_def fate_failures_def fate_answered_def

text \<open>The exchange is decided by the fate of the request.\<close>

lemma upstream_exchange_by_fate:
  assumes "try_pop (pop_closed env) (addr (bheap ctx ! b)) (connection_pool ctx) = (popped, pool)"
    and "prepare_request D env (addr (bheap ctx ! b)) req = Ret req'"
  shows "upstream_exchange D env req b ctx = (case upstream_fate env popped req' of
       Unreachable response \<Rightarrow> upstream_failure (failure_clock env) b response (ctx\<lparr>connection_pool := pool\<rparr>)
     | Unprepared \<Rightarrow> Ret (Inl ''Failed to prepare connection sender'', ctx\<lparr>connection_pool := pool\<rparr>)
     | Unsent \<Rightarrow> upstream_failure (failure_clock env) b request_failed (ctx\<lparr>connection_pool := pool\<rparr>)
     | Answered s res \<Rightarrow> Ret (Inr res, upstream_success env b (addr (bheap ctx ! b)) s (http_method req') res (ctx\<lparr>connection_pool := pool\<rparr>)))"
  using assms by (simp add: upstream_exchange_def upstream_fate_def Let_def split: sum.split option.split)

lemma upstream_exchange_fate:
  assumes "b < length (bheap ctx)" "failure_clock env = Some t"
    and "try_pop (pop_closed env) (addr (bheap ctx ! b)) (connection_pool ctx) = (popped, pool)"
    and "prepare_request D env (addr (bheap ctx ! b)) req = Ret req'"
  defines "ft \<equiv> upstream_fate env popped req'"
  shows "\<exists>ctx'. upstream_exchange D env req b ctx = Ret (fate_reply ft, ctx')
    \<and> failures (circuit_breaker (bheap ctx' ! b)) = fate_failures ft (failures (circuit_breaker (bheap ctx ! b)))
    \<and> ewma (b_ewma (bheap ctx' ! b)) = (if fate_answered ft
         then next_bits (decay_alpha (b_ewma (bheap ctx ! b))) (f64_mul (as_secs_f64 (rtt_elapsed env)) (f64_of_nat 1000))
                (ewma (b_ewma (bheap ctx ! b)))
         else ewma (b_ewma (bheap ctx ! b)))
    \<and> length (request_duration_seconds (metrics ctx')) = length (request_duration_seconds (metrics ctx)) + (if fate_answered ft then 1 else 0)
    \<and> length (bheap ctx') = length (bheap ctx)
    \<and> (\<forall>i. i < length (bheap ctx) \<and> i \<noteq> b \<longrightarrow> bheap ctx' ! i = bheap ctx ! i)"
proof -
  note x = upstream_exchange_by_fate [OF assms(3,4), folded ft_def]
  have "\<exists>cb. upstream_failure (Some t) b resp (ctx\<lparr>connection_pool := pool\<rparr>)
        = Ret (Inr resp, on_backend b (\<lambda>x. x\<lparr>circuit_breaker := cb\<rparr>) (ctx\<lparr>connection_pool := pool\<rparr>))
      \<and> failures cb = failures (circuit_breaker (bheap ctx ! b)) + 1" for resp
    using upstream_failure_Some [of b "ctx\<lparr>connection_pool := pool\<rparr>"] assms(1) by fastforce
  then obtain cb where cb: "\<And>resp. upstream_failure (Some t) b resp (ctx\<lparr>connection_pool := pool\<rparr>)
        = Ret (Inr resp, on_backend b (\<lambda>x. x\<lparr>circuit_breaker := cb resp\<rparr>) (ctx\<lparr>connection_pool := pool\<rparr>))"
      "\<And>resp. failures (cb resp) = failures (circuit_breaker (bheap ctx ! b)) + 1" by metis
  show ?thesis
  proof (cases ft)
    case (Answered s res)
    with assms(1) show ?thesis
      by (simp add: x fate_simps upstream_success_def Let_def modify_modify nth_modify record_success_def observe_latency_eq record_metrics_def)
  qed (use assms(1,2) cb in \<open>simp_all add: x fate_simps nth_modify\<close>)
qed

text \<open>
  C9. The breaker and the latency average see exactly what happened. Once a backend is chosen, its failure
  count goes up by one when it could not be reached, negotiated with or sent to, back to zero when it
  answered, whatever the status of the answer, and stays when only the sender was not ready; its
  latency average and the duration metric take a sample exactly when it answered; the reply is the
  upstream's answer, the matching 503, or an error for the sender; no other backend changes.
\<close>

theorem upstream_accounting:
  assumes "select_best_backend (select_clock env) (bheap ctx) (routing_table ctx) = Ret (Some b)"
    and "b < length (bheap ctx)" "failure_clock env = Some t"
    and "try_pop (pop_closed env) (addr (bheap ctx ! b)) (connection_pool ctx) = (popped, pool)"
    and "prepare_request D env (addr (bheap ctx ! b)) req = Ret req'"
  defines "ft \<equiv> upstream_fate env popped req'"
  shows "\<exists>ctx'. proxy_upstream D env req ctx = Ret (fate_reply ft, ctx')
    \<and> failures (circuit_breaker (bheap ctx' ! b)) = fate_failures ft (failures (circuit_breaker (bheap ctx ! b)))
    \<and> ewma (b_ewma (bheap ctx' ! b)) = (if fate_answered ft
         then next_bits (decay_alpha (b_ewma (bheap ctx ! b))) (f64_mul (as_secs_f64 (rtt_elapsed env)) (f64_of_nat 1000))
                (ewma (b_ewma (bheap ctx ! b)))
         else ewma (b_ewma (bheap ctx ! b)))
    \<and> length (request_duration_seconds (metrics ctx')) = length (request_duration_seconds (metrics ctx)) + (if fate_answered ft then 1 else 0)
    \<and> (\<forall>i. i < length (bheap ctx) \<and> i \<noteq> b \<longrightarrow> bheap ctx' ! i = bheap ctx ! i)"
proof -
  let ?c = "on_backend b (\<lambda>x. x\<lparr>b_ewma := increment_active (b_ewma x)\<rparr>) ctx"
  have x: "addr (bheap ?c ! b) = addr (bheap ctx ! b)" "circuit_breaker (bheap ?c ! b) = circuit_breaker (bheap ctx ! b)"
    "decay_alpha (b_ewma (bheap ?c ! b)) = decay_alpha (b_ewma (bheap ctx ! b))"
    "ewma (b_ewma (bheap ?c ! b)) = ewma (b_ewma (bheap ctx ! b))" "length (bheap ?c) = length (bheap ctx)"
    "\<And>i. i < length (bheap ctx) \<and> i \<noteq> b \<Longrightarrow> bheap ?c ! i = bheap ctx ! i"
    using assms(2) by (simp_all add: nth_modify frame_simps)
  have "try_pop (pop_closed env) (addr (bheap ?c ! b)) (connection_pool ?c) = (popped, pool)"
    "prepare_request D env (addr (bheap ?c ! b)) req = Ret req'" "b < length (bheap ?c)"
    using assms(2,4,5) x by simp_all
  from upstream_exchange_fate [OF this(3) assms(3) this(1,2), folded ft_def] obtain ctx2 where
    c2: "upstream_exchange D env req b ?c = Ret (fate_reply ft, ctx2)"
    and c2': "failures (circuit_breaker (bheap ctx2 ! b)) = fate_failures ft (failures (circuit_breaker (bheap ctx ! b)))"
      "ewma (b_ewma (bheap ctx2 ! b)) = (if fate_answered ft
         then next_bits (decay_alpha (b_ewma (bheap ctx ! b))) (f64_mul (as_secs_f64 (rtt_elapsed env)) (f64_of_nat 1000))
                (ewma (b_ewma (bheap ctx ! b)))
         else ewma (b_ewma (bheap ctx ! b)))"
      "length (request_duration_seconds (metrics ctx2)) = length (request_duration_seconds (metrics ctx)) + (if fate_answered ft then 1 else 0)"
      "length (bheap ctx2) = length (bheap ctx)"
      "\<And>i. i < length (bheap ctx) \<and> i \<noteq> b \<Longrightarrow> bheap ctx2 ! i = bheap ctx ! i"
    using x by auto
  have "proxy_upstream D env req ctx
      = Ret (fate_reply ft, on_backend b (\<lambda>x. x\<lparr>b_ewma := drop_guard (b_ewma x)\<rparr>) ctx2)"
    using assms(1) c2 by (simp add: proxy_upstream_def)
  then show ?thesis using c2' assms(2) by (simp add: nth_modify frame_simps)
qed

lemma demo_select: "select_best_backend (Some 1000) (bheap demo_ctx) (routing_table demo_ctx) = Ret (Some 0)"
  by (simp add: select_best_backend_def snapshot_def demo_ctx_def routing_table_new_def available_def is_healthy_def
      backend_new_def cb_defs)

theorem upstream_accounting_witness:
  "\<exists>ctx'. proxy_upstream demo_deps (demo_env\<lparr>connect_ok := False\<rparr>) demo_request demo_ctx = Ret (Inr connection_failed, ctx')
     \<and> failures (circuit_breaker (bheap ctx' ! 0)) = 1"
proof -
  let ?env = "demo_env\<lparr>connect_ok := False\<rparr>"
  have s: "select_best_backend (select_clock ?env) (bheap demo_ctx) (routing_table demo_ctx) = Ret (Some 0)"
    using demo_select by (simp add: demo_env_def)
  have l: "0 < length (bheap demo_ctx)" by (simp add: demo_ctx_def)
  have c: "failure_clock ?env = Some 1000" by (simp add: demo_env_def)
  have p: "try_pop (pop_closed ?env) (addr (bheap demo_ctx ! 0)) (connection_pool demo_ctx) = (None, pool_new)"
    by (simp add: try_pop_def demo_ctx_def pool_new_def)
  obtain req' where r: "prepare_request demo_deps ?env (addr (bheap demo_ctx ! 0)) demo_request = Ret req'"
    by (simp add: prepare_request_def demo_deps_def demo_http_def Let_def)
  have f: "upstream_fate ?env None req' = Unreachable connection_failed"
    by (simp add: upstream_fate_def acquire_sender_def)
  have z: "failures (circuit_breaker (bheap demo_ctx ! 0)) = 0"
    by (simp add: demo_ctx_def backend_new_def circuit_breaker_new_def)
  show ?thesis
    using upstream_accounting [OF s l c p r] by (auto simp: f z fate_reply_def fate_failures_def)
qed

end
