(* ===== verification/Tls.thy ===== *)
theory Tls
  imports Text
begin

text \<open>
  \<open>vortex-proxy/src/tls.rs\<close>: the SNI certificate manager and the loading of certificates and keys.
  Certificates and keys are values of any type; reading and parsing a PEM file is a parameter.
  Server names are ASCII, so that \<open>to_lowercase\<close> acts on the letters A to Z.
\<close>

section \<open>State and operations\<close>

record ('c, 'k) CertKeyBundle =
  certs :: "'c list"
  key :: 'k

definition bundle_new :: "'c list \<Rightarrow> 'k \<Rightarrow> ('c, 'k) CertKeyBundle" where
  "bundle_new cs k = \<lparr>certs = cs, key = k\<rparr>"

text \<open>\<open>Clone\<close>: the certificates and the key are copied.\<close>

definition bundle_clone :: "('c, 'k) CertKeyBundle \<Rightarrow> ('c, 'k) CertKeyBundle" where
  "bundle_clone b = \<lparr>certs = certs b, key = key b\<rparr>"

lemma bundle_clone_id [simp]: "bundle_clone b = b" "map_option bundle_clone x = x"
  by (cases x; simp add: bundle_clone_def)+

record ('c, 'k) SniCertificateManager =
  domains :: "string \<Rightarrow> ('c, 'k) CertKeyBundle option"
  default_bundle :: "('c, 'k) CertKeyBundle option"

definition sni_new :: "('c, 'k) SniCertificateManager" where
  "sni_new = \<lparr>domains = Map.empty, default_bundle = None\<rparr>"

definition sni_default :: "('c, 'k) SniCertificateManager" where
  "sni_default = sni_new"

definition set_default :: "'c list \<Rightarrow> 'k \<Rightarrow> ('c, 'k) SniCertificateManager \<Rightarrow> ('c, 'k) SniCertificateManager" where
  "set_default cs k m = m\<lparr>default_bundle := Some (bundle_new cs k)\<rparr>"

definition with_default :: "'c list \<Rightarrow> 'k \<Rightarrow> ('c, 'k) SniCertificateManager" where
  "with_default cs k = set_default cs k sni_new"

definition register_domain ::
  "string \<Rightarrow> 'c list \<Rightarrow> 'k \<Rightarrow> ('c, 'k) SniCertificateManager \<Rightarrow> ('c, 'k) SniCertificateManager" where
  "register_domain domain cs k m = m\<lparr>domains := (domains m)(to_lowercase domain \<mapsto> bundle_new cs k)\<rparr>"

definition remove_domain :: "string \<Rightarrow> ('c, 'k) SniCertificateManager \<Rightarrow> bool \<times> ('c, 'k) SniCertificateManager" where
  "remove_domain domain m =
     (domains m (to_lowercase domain) \<noteq> None, m\<lparr>domains := (domains m)(to_lowercase domain := None)\<rparr>)"

definition domain_count :: "('c, 'k) SniCertificateManager \<Rightarrow> nat" where
  "domain_count m = card (dom (domains m))"

text \<open>The text of a name from its first dot on, and the wildcard made of it.\<close>

definition wildcard_of :: "string \<Rightarrow> string option" where
  "wildcard_of name = (case dropWhile (\<lambda>c. c \<noteq> CHR ''.'') name of [] \<Rightarrow> None | rest \<Rightarrow> Some (CHR ''*'' # rest))"

definition get_certificate :: "string \<Rightarrow> ('c, 'k) SniCertificateManager \<Rightarrow> ('c, 'k) CertKeyBundle option" where
  "get_certificate server_name m =
     (let clean_name = to_lowercase server_name
      in case domains m clean_name of
           Some bundle \<Rightarrow> Some (bundle_clone bundle)
         | None \<Rightarrow> (case wildcard_of clean_name of
               None \<Rightarrow> map_option bundle_clone (default_bundle m)
             | Some wildcard \<Rightarrow> (case domains m wildcard of
                   Some bundle \<Rightarrow> Some (bundle_clone bundle)
                 | None \<Rightarrow> map_option bundle_clone (default_bundle m))))"

text \<open>
  Loading. \<open>read_certs\<close> and \<open>read_keys\<close> stand for opening the file and for the PEM parser: an error, or
  the items found. \<open>keys.remove(0)\<close> panics when there is none.
\<close>

definition load_certs :: "('p \<Rightarrow> string + 'c list) \<Rightarrow> 'p \<Rightarrow> string + 'c list" where
  "load_certs read_certs cert_path = read_certs cert_path"

definition load_private_key :: "('p \<Rightarrow> string + 'k list) \<Rightarrow> 'p \<Rightarrow> (string + 'k) outcome" where
  "load_private_key read_keys key_path = (case read_keys key_path of
       Inl e \<Rightarrow> Ret (Inl e)
     | Inr [] \<Rightarrow> Panic
     | Inr (k # _) \<Rightarrow> Ret (Inr k))"

definition reload_from_paths ::
  "('p \<Rightarrow> string + 'c list) \<Rightarrow> ('p \<Rightarrow> string + 'k list) \<Rightarrow> string \<Rightarrow> 'p \<Rightarrow> 'p \<Rightarrow> ('c, 'k) SniCertificateManager
     \<Rightarrow> ((string + unit) \<times> ('c, 'k) SniCertificateManager) outcome" where
  "reload_from_paths read_certs read_keys domain cert_path key_path m =
     (case load_certs read_certs cert_path of
        Inl e \<Rightarrow> Ret (Inl e, m)
      | Inr cs \<Rightarrow> obind (load_private_key read_keys key_path) (\<lambda>r. case r of
            Inl e \<Rightarrow> Ret (Inl e, m)
          | Inr k \<Rightarrow> Ret (Inr (), register_domain domain cs k m)))"

record ('c, 'k) ServerConfig =
  single_cert :: "'c list \<times> 'k"
  alpn_protocols :: "string list"

definition load_tls_config ::
  "('p \<Rightarrow> string + 'c list) \<Rightarrow> ('p \<Rightarrow> string + 'k list) \<Rightarrow> ('c list \<Rightarrow> 'k \<Rightarrow> bool) \<Rightarrow> 'p \<Rightarrow> 'p
     \<Rightarrow> (string + ('c, 'k) ServerConfig) outcome" where
  "load_tls_config read_certs read_keys valid_pair cert_path key_path =
     (case load_certs read_certs cert_path of
        Inl e \<Rightarrow> Ret (Inl e)
      | Inr cs \<Rightarrow> obind (load_private_key read_keys key_path) (\<lambda>r. case r of
            Inl e \<Rightarrow> Ret (Inl e)
          | Inr k \<Rightarrow> if valid_pair cs k
                     then Ret (Inr \<lparr>single_cert = (cs, k), alpn_protocols = [''h2'', ''http/1.1'']\<rparr>)
                     else Ret (Inl ''certificate'')))"

section \<open>Lemmas\<close>

text \<open>A wildcard pattern names the hosts of exactly one more label.\<close>

lemma wildcard_of_iff:
  "wildcard_of name = Some pat \<longleftrightarrow>
     (\<exists>label suffix. name = label @ CHR ''.'' # suffix \<and> CHR ''.'' \<notin> set label \<and> pat = CHR ''*'' # CHR ''.'' # suffix)"
proof
  assume "wildcard_of name = Some pat"
  then obtain rest where r: "dropWhile (\<lambda>c. c \<noteq> CHR ''.'') name = CHR ''.'' # rest" "pat = CHR ''*'' # CHR ''.'' # rest"
    by (auto simp: wildcard_of_def dropWhile_eq_Cons_conv simp del: dropWhile_eq_Nil_conv split: list.splits)
  then have "name = takeWhile (\<lambda>c. c \<noteq> CHR ''.'') name @ CHR ''.'' # rest" by (metis takeWhile_dropWhile_id)
  moreover have "CHR ''.'' \<notin> set (takeWhile (\<lambda>c. c \<noteq> CHR ''.'') name)" by (auto dest: set_takeWhileD)
  ultimately show "\<exists>label suffix. name = label @ CHR ''.'' # suffix \<and> CHR ''.'' \<notin> set label \<and> pat = CHR ''*'' # CHR ''.'' # suffix"
    using r(2) by blast
next
  assume "\<exists>label suffix. name = label @ CHR ''.'' # suffix \<and> CHR ''.'' \<notin> set label \<and> pat = CHR ''*'' # CHR ''.'' # suffix"
  then obtain label suffix where n: "name = label @ CHR ''.'' # suffix" "CHR ''.'' \<notin> set label" "pat = CHR ''*'' # CHR ''.'' # suffix"
    by blast
  then have "dropWhile (\<lambda>c. c \<noteq> CHR ''.'') name = CHR ''.'' # suffix" by (simp add: dropWhile_append)
  with n show "wildcard_of name = Some pat" by (simp add: wildcard_of_def)
qed

section \<open>The manager as a history of operations\<close>

datatype ('c, 'k, 'p) sni_op = Register string "'c list" 'k | Remove string | SetDefault "'c list" 'k | Reload string 'p 'p

fun sni_apply ::
  "('p \<Rightarrow> string + 'c list) \<Rightarrow> ('p \<Rightarrow> string + 'k list) \<Rightarrow> ('c, 'k, 'p) sni_op \<Rightarrow> ('c, 'k) SniCertificateManager
     \<Rightarrow> ('c, 'k) SniCertificateManager outcome" where
  "sni_apply rc rk (Register d cs k) m = Ret (register_domain d cs k m)"
| "sni_apply rc rk (Remove d) m = Ret (snd (remove_domain d m))"
| "sni_apply rc rk (SetDefault cs k) m = Ret (set_default cs k m)"
| "sni_apply rc rk (Reload d cp kp) m = obind (reload_from_paths rc rk d cp kp m) (\<lambda>r. Ret (snd r))"

fun sni_run ::
  "('p \<Rightarrow> string + 'c list) \<Rightarrow> ('p \<Rightarrow> string + 'k list) \<Rightarrow> ('c, 'k, 'p) sni_op list \<Rightarrow> ('c, 'k) SniCertificateManager
     \<Rightarrow> ('c, 'k) SniCertificateManager outcome" where
  "sni_run rc rk [] m = Ret m"
| "sni_run rc rk (op # ops) m = obind (sni_apply rc rk op m) (sni_run rc rk ops)"

text \<open>
  What an operation says of the entry of a (lower-case) domain, and of the default: nothing, or that
  it is now absent or a bundle. The last operation that says something decides.
\<close>

fun entry_word :: "('p \<Rightarrow> string + 'c list) \<Rightarrow> ('p \<Rightarrow> string + 'k list) \<Rightarrow> string \<Rightarrow> ('c, 'k, 'p) sni_op \<Rightarrow> ('c, 'k) CertKeyBundle option option" where
  "entry_word rc rk d (Register d' cs k) = (if to_lowercase d' = d then Some (Some (bundle_new cs k)) else None)"
| "entry_word rc rk d (Remove d') = (if to_lowercase d' = d then Some None else None)"
| "entry_word rc rk d (SetDefault cs k) = None"
| "entry_word rc rk d (Reload d' cp kp) =
     (if to_lowercase d' = d then (case (rc cp, rk kp) of (Inr cs, Inr (k # _)) \<Rightarrow> Some (Some (bundle_new cs k)) | _ \<Rightarrow> None) else None)"

fun default_word :: "('c, 'k, 'p) sni_op \<Rightarrow> ('c, 'k) CertKeyBundle option option" where
  "default_word (SetDefault cs k) = Some (Some (bundle_new cs k))"
| "default_word _ = None"

definition last_word :: "('o \<Rightarrow> 'b option option) \<Rightarrow> 'o list \<Rightarrow> 'b option" where
  "last_word word ops = (case filter (\<lambda>op. word op \<noteq> None) ops of [] \<Rightarrow> None | x # xs \<Rightarrow> the (word (last (x # xs))))"

text \<open>The certificate a history prescribes for a server name.\<close>

definition prescribed ::
  "('p \<Rightarrow> string + 'c list) \<Rightarrow> ('p \<Rightarrow> string + 'k list) \<Rightarrow> ('c, 'k, 'p) sni_op list \<Rightarrow> string \<Rightarrow> ('c, 'k) CertKeyBundle option" where
  "prescribed rc rk ops name =
     (let entry = \<lambda>d. last_word (entry_word rc rk d) ops; name' = to_lowercase name;
          wild = (case wildcard_of name' of None \<Rightarrow> None | Some w \<Rightarrow> entry w)
      in if entry name' \<noteq> None then entry name' else if wild \<noteq> None then wild else last_word default_word ops)"

definition keyless_reload :: "('p \<Rightarrow> string + 'c list) \<Rightarrow> ('p \<Rightarrow> string + 'k list) \<Rightarrow> ('c, 'k, 'p) sni_op \<Rightarrow> bool" where
  "keyless_reload rc rk op \<longleftrightarrow> (case op of Reload d cp kp \<Rightarrow> (\<exists>cs. rc cp = Inr cs) \<and> rk kp = Inr [] | _ \<Rightarrow> False)"

lemma last_word_snoc: "last_word word (ops @ [op]) = (case word op of None \<Rightarrow> last_word word ops | Some b \<Rightarrow> b)"
  by (cases "filter (\<lambda>op. word op \<noteq> None) ops") (auto simp: last_word_def)

lemma sni_run_snoc: "sni_run rc rk (ops @ [op]) m = obind (sni_run rc rk ops m) (sni_apply rc rk op)"
proof (induction ops arbitrary: m)
  case Nil
  show ?case by (cases "sni_apply rc rk op m") simp_all
next
  case (Cons a ops)
  then show ?case by (cases "sni_apply rc rk a m") simp_all
qed

lemma sni_apply_panics: "sni_apply rc rk op m = Panic \<longleftrightarrow> keyless_reload rc rk op"
  by (cases op) (auto simp: keyless_reload_def reload_from_paths_def load_certs_def load_private_key_def split: sum.splits list.splits)

lemma sni_apply_words:
  assumes "sni_apply rc rk op m = Ret m'"
  shows "domains m' d = (case entry_word rc rk d op of None \<Rightarrow> domains m d | Some b \<Rightarrow> b)"
    "default_bundle m' = (case default_word op of None \<Rightarrow> default_bundle m | Some b \<Rightarrow> b)"
  using assms
  by (cases op; auto simp: register_domain_def remove_domain_def set_default_def reload_from_paths_def load_certs_def
      load_private_key_def split: sum.splits list.splits)+

lemma sni_run_words:
  assumes "sni_run rc rk ops sni_new = Ret m"
  shows "domains m d = last_word (entry_word rc rk d) ops \<and> default_bundle m = last_word default_word ops"
  using assms
proof (induction ops arbitrary: m rule: rev_induct)
  case Nil
  then show ?case by (auto simp: sni_new_def last_word_def)
next
  case (snoc op ops)
  then obtain m' where "sni_run rc rk ops sni_new = Ret m'" "sni_apply rc rk op m' = Ret m" by (auto simp: sni_run_snoc outcome_simps)
  with snoc.IH show ?case by (simp add: sni_apply_words last_word_snoc split: option.splits)
qed

lemma sni_run_panics: "sni_run rc rk ops m = Panic \<longleftrightarrow> list_ex (keyless_reload rc rk) ops"
  by (induction ops arbitrary: m) (auto simp: obind_eq_Panic sni_apply_panics, metis outcome.exhaust sni_apply_panics)

section \<open>Properties\<close>

text \<open>
  C19. The certificate manager refines its history. After any sequence of registrations, removals, changes of
  the default and reloads from files, a server name in any letter case gets the bundle that the history
  prescribes: the last word on the exact domain; when that is none, the last word on the wildcard of the
  name, which covers exactly one label; when that is none too, the last default set. A reload counts as a
  registration when its certificates and a key can be read, and as nothing when they cannot. The count of
  domains and the answer of a removal follow the history as well. The sequence panics exactly when one of
  its reloads finds a key file without a key.
\<close>

theorem sni_manager_refines_history:
  "case sni_run read_certs read_keys ops sni_new of
     Panic \<Rightarrow> list_ex (keyless_reload read_certs read_keys) ops
   | Ret m \<Rightarrow> \<not> list_ex (keyless_reload read_certs read_keys) ops
       \<and> get_certificate name m = prescribed read_certs read_keys ops name
       \<and> domain_count m = card {d. last_word (entry_word read_certs read_keys d) ops \<noteq> None}
       \<and> fst (remove_domain d m) = (last_word (entry_word read_certs read_keys (to_lowercase d)) ops \<noteq> None)"
proof (cases "sni_run read_certs read_keys ops sni_new")
  case Panic
  then have "list_ex (keyless_reload read_certs read_keys) ops" using sni_run_panics by blast
  with Panic show ?thesis by simp
next
  case (Ret m)
  note words = sni_run_words [OF Ret]
  have "get_certificate name m = prescribed read_certs read_keys ops name"
    by (auto simp: get_certificate_def prescribed_def Let_def words split: option.splits)
  moreover have "\<not> list_ex (keyless_reload read_certs read_keys) ops" using Ret sni_run_panics by (metis outcome.distinct(1))
  ultimately show ?thesis by (simp add: Ret domain_count_def remove_domain_def dom_def words)
qed

text \<open>
  Registration and lookup of certificates. After a certificate is registered for a domain, a server
  name in any letter case gets it when it is that domain; or when the domain is a wildcard
  \<open>*.suffix\<close>, the name is one label followed by the suffix, and there is no certificate for the exact
  name; every other name gets what it got before. So an exact entry wins over a wildcard, a
  wildcard over the default, and a wildcard does not reach two labels deep.
\<close>

lemma sni_register_lookup:
  "get_certificate name (register_domain d cs k m) =
     (if to_lowercase name = to_lowercase d then Some (bundle_new cs k)
      else if domains m (to_lowercase name) = None \<and>
        (\<exists>label suffix. to_lowercase name = label @ CHR ''.'' # suffix \<and> CHR ''.'' \<notin> set label
           \<and> to_lowercase d = CHR ''*'' # CHR ''.'' # suffix) then Some (bundle_new cs k)
      else get_certificate name m)"
  unfolding wildcard_of_iff [symmetric]
  by (auto simp: get_certificate_def register_domain_def Let_def split: option.splits)

text \<open>
  A reload is all or nothing: when a file cannot be read or parsed the manager is left as it was
  and keeps serving the old certificate; on success exactly the domain's entry is replaced, by all
  the certificates and the first key; and the call panics exactly when the certificates load and
  the key file parses but holds no PKCS8 key.
\<close>

lemma reload_all_or_nothing:
  "case reload_from_paths read_certs read_keys d cert_path key_path m of
     Panic \<Rightarrow> (\<exists>cs. read_certs cert_path = Inr cs) \<and> read_keys key_path = Inr []
   | Ret (Inl e, m') \<Rightarrow> m' = m \<and>
       (read_certs cert_path = Inl e \<or> (\<exists>cs. read_certs cert_path = Inr cs) \<and> read_keys key_path = Inl e)
   | Ret (Inr _, m') \<Rightarrow> (\<exists>cs k ks. read_certs cert_path = Inr cs \<and> read_keys key_path = Inr (k # ks)
       \<and> m' = register_domain d cs k m)"
  by (auto simp: reload_from_paths_def load_certs_def load_private_key_def split: sum.splits list.splits)

end
