(* ===== verification/Quic.thy ===== *)
theory Quic
  imports Tls Backend
begin

text \<open>
  \<open>vortex-proxy/src/quic_server.rs\<close>: the QUIC listener. It loads the certificate and key files of the TLS
  listener, offers only HTTP/3, and logs each connection; no request is read from one. The \<open>quinn\<close>
  conversions are parameters; the connections arrive as a list that ends when the endpoint closes.
\<close>

section \<open>The listener\<close>

record ('c, 'k, 'q) Quinn =
  quic_config :: "('c, 'k) ServerConfig \<Rightarrow> string + 'q"
  endpoint_server :: "'q \<Rightarrow> SocketAddr \<Rightarrow> string + unit"

datatype quic_event = Established SocketAddr | Failed string

text \<open>What the spawned task logs for an incoming connection.\<close>

definition quic_connection :: "string + SocketAddr \<Rightarrow> quic_event" where
  "quic_connection conn = (case conn of Inr remote_address \<Rightarrow> Established remote_address | Inl e \<Rightarrow> Failed e)"

definition start_quic_server ::
  "('p \<Rightarrow> string + 'c list) \<Rightarrow> ('p \<Rightarrow> string + 'k list) \<Rightarrow> ('c list \<Rightarrow> 'k \<Rightarrow> bool) \<Rightarrow> ('c, 'k, 'q) Quinn
     \<Rightarrow> SocketAddr \<Rightarrow> 'p \<Rightarrow> 'p \<Rightarrow> (string + SocketAddr) list \<Rightarrow> (string + quic_event list) outcome" where
  "start_quic_server read_certs read_keys valid_pair Q addr' cert_path key_path incoming =
     (case load_certs read_certs cert_path of
        Inl e \<Rightarrow> Ret (Inl e)
      | Inr cs \<Rightarrow> obind (load_private_key read_keys key_path) (\<lambda>r. case r of
            Inl e \<Rightarrow> Ret (Inl e)
          | Inr k \<Rightarrow>
              if \<not> valid_pair cs k then Ret (Inl ''invalid certificate'')
              else (let rustls_config = \<lparr>single_cert = (cs, k), alpn_protocols = [''h3'']\<rparr>
                    in Ret (sbind (quic_config Q rustls_config) (\<lambda>crypto_config.
                         sbind (endpoint_server Q crypto_config addr') (\<lambda>_.
                           Inr (map quic_connection incoming)))))))"

section \<open>Properties\<close>

text \<open>
  The QUIC listener is no new way to lose the process: on the files from which the TLS configuration
  was loaded it does not panic, and it listens exactly when the QUIC library accepts the same
  certificate with the one protocol \<open>h3\<close> and can bind the address; then every incoming connection is
  logged, in order, and nothing else happens. On a key file without a key both panic.
\<close>

lemma quic_listens_with_tls_files:
  "case load_tls_config read_certs read_keys valid_pair cert_path key_path of
     Panic \<Rightarrow> start_quic_server read_certs read_keys valid_pair Q a cert_path key_path incoming = Panic
   | Ret (Inl e) \<Rightarrow> (\<exists>e'. start_quic_server read_certs read_keys valid_pair Q a cert_path key_path incoming = Ret (Inl e'))
   | Ret (Inr config) \<Rightarrow>
       start_quic_server read_certs read_keys valid_pair Q a cert_path key_path incoming
         = Ret (case quic_config Q (config\<lparr>alpn_protocols := [''h3'']\<rparr>) of
             Inl e \<Rightarrow> Inl e
           | Inr q \<Rightarrow> (case endpoint_server Q q a of
               Inl e \<Rightarrow> Inl e
             | Inr _ \<Rightarrow> Inr (map (\<lambda>c. case c of Inr remote \<Rightarrow> Established remote | Inl e \<Rightarrow> Failed e) incoming)))"
  by (auto simp: start_quic_server_def load_tls_config_def load_private_key_def quic_connection_def [abs_def] Let_def
      split: sum.splits list.splits if_splits)

end
