(* ===== verification/Metrics_Ext.thy ===== *)
theory Metrics_Ext
  imports Backend
begin

text \<open>
  \<open>vortex-proxy/src/metrics_ext.rs\<close>: the Prometheus exporter. The builder of the exporter library is a
  parameter, with the documented behaviour that buckets are refused exactly when there are none. A
  decimal literal is the correctly rounded quotient of two integers.
\<close>

section \<open>Set-up\<close>

record 'b PrometheusBuilder =
  builder_new :: 'b
  with_http_listener :: "'b \<Rightarrow> SocketAddr \<Rightarrow> 'b"
  set_buckets_for_metric :: "'b \<Rightarrow> string \<Rightarrow> f64 list \<Rightarrow> string + 'b"
  install :: "'b \<Rightarrow> string + unit"

text \<open>\<open>n / 1000\<close> as a literal.\<close>

definition milli :: "nat \<Rightarrow> f64" where
  "milli n = f64_div (f64_of_nat n) (f64_of_nat 1000)"

definition duration_buckets :: "f64 list" where
  "duration_buckets = map milli [1, 5, 10, 25, 50, 100, 250, 500, 1000, 2500, 5000, 10000]"

definition token_buckets :: "f64 list" where
  "token_buckets = map f64_of_nat [10, 50, 100, 500, 1000, 2048, 4096, 8192, 16384, 32768]"

definition exporter_addr :: "u16 \<Rightarrow> SocketAddr" where
  "exporter_addr port = SocketAddr (V4 0 0 0 0) port"

definition init_metrics_exporter :: "'b PrometheusBuilder \<Rightarrow> u16 \<Rightarrow> string + unit" where
  "init_metrics_exporter B port =
     (let builder = with_http_listener B (builder_new B) (exporter_addr port)
      in sbind (set_buckets_for_metric B builder ''vortex_request_duration_seconds'' duration_buckets) (\<lambda>builder.
           sbind (set_buckets_for_metric B builder ''vortex_ai_token_usage'' token_buckets) (\<lambda>builder.
             sbind (install B builder) (\<lambda>_. Inr ()))))"

section \<open>The buckets\<close>

text \<open>A list of bucket bounds a histogram can use: not empty and strictly increasing, none NaN.\<close>

definition histogram_bounds :: "f64 list \<Rightarrow> bool" where
  "histogram_bounds bs \<longleftrightarrow> bs \<noteq> [] \<and> sorted_wrt (\<lambda>a b. f64_gt b a) bs \<and> list_all (\<lambda>b. \<not> is_nan b) bs"

text \<open>The behaviour of the builder the code relies on.\<close>

definition builder_law :: "'b PrometheusBuilder \<Rightarrow> bool" where
  "builder_law B \<longleftrightarrow> (\<forall>b name bs. bs \<noteq> [] \<longrightarrow> (\<exists>b'. set_buckets_for_metric B b name bs = Inr b'))"

text \<open>
  Rounding does not merge two bounds that have two neighbouring multiples of \<open>2 ^ -10\<close> between them.
\<close>

lemma milli_less:
  assumes "m * 1024 \<le> a * 1000" "(a + 1) * 1000 \<le> n * 1024" "n \<le> 2 ^ 20"
  shows "f64_gt (milli n) (milli m)"
proof -
  define u where "u = (2::nat) ^ 1064"
  have one: "one_u = 1024 * u" "0 < u"
    unfolding one_u_def u_def using power_add [of "2::nat" 10 1064] by simp_all
  have nm: "m \<le> 2 ^ 53" "n \<le> 2 ^ 53" "a + 1 < 2 ^ 53" using assms by simp_all
  have div: "milli k = f64_round False (k * one_u * one_u) (1000 * one_u)" if "k \<le> 2 ^ 53" for k
    unfolding milli_def using that one by (intro f64_div_nn view_of_nat) simp_all
  obtain b1 b2 where b: "mag b1 = a * u" "mag b2 = (a + 1) * u"
    using mag_dyadic [of a 1064] mag_dyadic [of "a + 1" 1064] nm(3) unfolding u_def by auto
  define rm where "rm = round_mag (m * one_u * one_u) (1000 * one_u)"
  define rn where "rn = round_mag (n * one_u * one_u) (1000 * one_u)"
  have "m * 1024 * u * (1024 * u) \<le> a * 1000 * u * (1024 * u)" using assms(1) by (intro mult_le_mono1)
  then have "m * one_u * one_u \<le> mag b1 * (1000 * one_u)" unfolding b one(1) by (simp only: ac_simps)
  then have "rm \<le> b1" unfolding rm_def using one by (intro round_mag_le) simp_all
  moreover have "(a + 1) * 1000 * u * (1024 * u) \<le> n * 1024 * u * (1024 * u)" using assms(2) by (intro mult_le_mono1)
  then have "mag b2 * (1000 * one_u) \<le> n * one_u * one_u" unfolding b one(1) by (simp only: ac_simps)
  then have "b2 \<le> rn" unfolding rn_def using one by (intro round_mag_ge) simp_all
  moreover have "mag b1 < mag b2" using one by (simp add: b del: mag_less_iff)
  ultimately have lt: "rm < rn" by simp
  have "a < 2 ^ 1034"
    using nm(3) power_increasing [of 53 1034 "2::nat"] by linarith
  then have "mag b1 < mag inf_bits"
    unfolding mag_inf_bits one b(1) using one(2) power_add [of "2::nat" 1024 10] by (simp del: mag_less_iff add: ac_simps)
  then have "rm < inf_bits" using \<open>rm \<le> b1\<close> by simp
  with lt show ?thesis
    unfolding div [OF nm(1)] div [OF nm(2)] f64_gt_def by (simp add: fval_round rm_def rn_def)
qed

lemma milli_finite: "n \<le> 2 ^ 53 \<Longrightarrow> \<not> is_nan (milli n)"
  unfolding milli_def by (subst f64_div_nn [OF view_of_nat view_of_nat]) (simp_all add: one_u_def fval_round)

lemma duration_bounds: "histogram_bounds duration_buckets"
proof -
  have "f64_gt (milli n) (milli m)" if "m + 5 \<le> n \<or> m = 1 \<and> n = 5" "n \<le> 10000" for m n
    using that by (intro milli_less [of m "(m * 1024 + 999) div 1000"]) (auto simp: div_le_mono)
  then show ?thesis by (simp add: histogram_bounds_def duration_buckets_def milli_finite)
qed

lemma token_bounds: "histogram_bounds token_buckets"
  by (simp add: histogram_bounds_def token_buckets_def f64_gt_of_nat fval_of_nat)

section \<open>Properties\<close>

text \<open>
  The metrics exporter is configured soundly: the bounds of both histograms, rounded as the literals
  are, are strictly increasing and finite, so no bucket is lost; with a builder of the documented
  behaviour the set-up fails exactly when the exporter cannot be installed, after the listener on all
  interfaces and both bucket lists were passed on.
\<close>

lemma metrics_exporter_setup:
  assumes "builder_law B"
  shows "histogram_bounds duration_buckets \<and> histogram_bounds token_buckets
    \<and> (\<exists>b1 b2. set_buckets_for_metric B (with_http_listener B (builder_new B) (SocketAddr (V4 0 0 0 0) port))
            ''vortex_request_duration_seconds'' duration_buckets = Inr b1
        \<and> set_buckets_for_metric B b1 ''vortex_ai_token_usage'' token_buckets = Inr b2
        \<and> init_metrics_exporter B port = install B b2)"
proof -
  have ne: "duration_buckets \<noteq> []" "token_buckets \<noteq> []" by (simp_all add: duration_buckets_def token_buckets_def)
  obtain b1 where b1: "set_buckets_for_metric B (with_http_listener B (builder_new B) (exporter_addr port))
      ''vortex_request_duration_seconds'' duration_buckets = Inr b1"
    using assms ne(1) unfolding builder_law_def by blast
  obtain b2 where b2: "set_buckets_for_metric B b1 ''vortex_ai_token_usage'' token_buckets = Inr b2"
    using assms ne(2) unfolding builder_law_def by blast
  have "init_metrics_exporter B port = install B b2"
    by (cases "install B b2") (simp_all add: init_metrics_exporter_def b1 b2)
  with duration_bounds token_bounds b1 b2 show ?thesis by (auto simp: exporter_addr_def)
qed

definition list_builder :: "(SocketAddr option \<times> (string \<times> f64 list) list) PrometheusBuilder" where
  "list_builder = \<lparr>builder_new = (None, []), with_http_listener = (\<lambda>(_, ms) a. (Some a, ms)),
     set_buckets_for_metric = (\<lambda>(a, ms) name bs. if bs = [] then Inl ''empty'' else Inr (a, ms @ [(name, bs)])),
     install = (\<lambda>(a, ms). if a = None then Inl ''no listener'' else Inr ())\<rparr>"

end
