(* ===== verification/Startup.thy ===== *)
theory Startup
  imports Server Quic Metrics_Ext
begin

text \<open>
  \<open>vortex-proxy/src/main.rs\<close> up to the point where the server runs: the choice of cores for the worker
  threads, and \<open>async_main\<close>, which builds every component in the order of the code. \<open>StartEnv\<close> is what
  it finds outside: the libraries' constructors, files, the environment. A failed \<open>unwrap\<close> or \<open>expect\<close>
  is a \<open>Panic\<close>.
\<close>

section \<open>Worker threads\<close>

definition worker_threads :: "'core list \<Rightarrow> nat" where
  "worker_threads core_ids = (if length core_ids > 0 then length core_ids else 4)"

text \<open>\<open>on_thread_start\<close>: the core a thread is pinned to, if any, and the counter after it.\<close>

definition on_thread_start :: "'core list \<Rightarrow> usize \<Rightarrow> 'core option \<times> usize" where
  "on_thread_start core_ids core_idx =
     (if length core_ids > 0 then (Some (core_ids ! (unat core_idx mod length core_ids)), core_idx + 1)
      else (None, core_idx))"

fun pinned :: "'core list \<Rightarrow> usize \<Rightarrow> nat \<Rightarrow> 'core option list" where
  "pinned core_ids core_idx 0 = []"
| "pinned core_ids core_idx (Suc n) =
     (let (core, core_idx') = on_thread_start core_ids core_idx in core # pinned core_ids core_idx' n)"

section \<open>Start-up\<close>

record ('tr, 'pb, 'c, 'k, 'bpf, 'x, 'e, 's) StartEnv =
  otlp_install :: "OtlpPipeline \<Rightarrow> string + 'tr"
  rust_log :: "string option"
  prometheus :: "'pb PrometheusBuilder"
  tls_files :: "(string \<Rightarrow> string + 'c list) \<times> (string \<Rightarrow> string + 'k list)"
  valid_pair :: "'c list \<Rightarrow> 'k \<Rightarrow> bool"
  on_linux :: bool
  bpf_object :: "u8 list option"
  aya :: "('bpf, 'x) Aya"
  engine_new :: "WasmConfig \<Rightarrow> string + 'e"
  redis_url_var :: "string option"
  create_pool :: "string \<Rightarrow> string + 's"

definition xdp_limiter_init :: "('tr, 'pb, 'c, 'k, 'bpf, 'x, 'e, 's) StartEnv \<Rightarrow> 'x option outcome" where
  "xdp_limiter_init E =
     (if on_linux E
      then (case bpf_object E of
              Some bpf_code \<Rightarrow>
                obind (linux_new (aya E) ''eth0'' bpf_code) (\<lambda>r. Ret (case r of Inr l \<Rightarrow> Some l | Inl e \<Rightarrow> None))
            | None \<Rightarrow> Ret None)
      else Ret None)"

definition metrics_port :: u16 where
  "metrics_port = 9091"

definition initial_backends :: "Backend list" where
  "initial_backends = [backend_new 1 (SocketAddr (V4 127 0 0 1) 9090), backend_new 2 (SocketAddr (V4 127 0 0 1) 9091)]"

definition default_wat_filter :: string where
  "default_wat_filter = [CHR 0x0A] @ ''        (module'' @ [CHR 0x0A] @ ''            (func (export '' @ quoted ''execute'' @ '') (result i32)'' @ [CHR 0x0A] @ ''                i32.const 200'' @ [CHR 0x0A] @ ''            )'' @ [CHR 0x0A] @ ''        )'' @ [CHR 0x0A] @ ''    ''"

definition as_bytes :: "string \<Rightarrow> u8 list" where
  "as_bytes s = map (\<lambda>c. of_nat (of_char c)) s"

definition redis_url :: "('tr, 'pb, 'c, 'k, 'bpf, 'x, 'e, 's) StartEnv \<Rightarrow> string" where
  "redis_url E = (case redis_url_var E of Some u \<Rightarrow> u | None \<Rightarrow> ''redis://127.0.0.1/'')"

definition async_main ::
  "('tr, 'pb, 'c, 'k, 'bpf, 'x, 'e, 's) StartEnv \<Rightarrow> 'tr Tracing
     \<Rightarrow> (('conn, 'x, 's) ServerContext \<times> ('c, 'k) ServerConfig) outcome" where
  "async_main E tracing =
     obind (init_telemetry (otlp_install E) (rust_log E) tracing) (\<lambda>(telemetry, _).
     obind (expect telemetry) (\<lambda>_.
     obind (expect (init_metrics_exporter (prometheus E) metrics_port)) (\<lambda>_.
     obind (load_tls_config (fst (tls_files E)) (snd (tls_files E)) (valid_pair E) ''certs/cert.pem'' ''certs/key.pem'') (\<lambda>tls.
     obind (expect tls) (\<lambda>tls_config.
     obind (xdp_limiter_init E) (\<lambda>xdp_limiter0.
     let (refs, h) = alloc initial_backends []
     in obind (wasm_engine_new (engine_new E)) (\<lambda>_.
     obind (redis_store_new (create_pool E) (redis_url E)) (\<lambda>store.
       Ret (\<lparr>bheap = h, routing_table = routing_table_new refs, active_connections = 0,
             active_wasm_payload = as_bytes default_wat_filter, wasm_poisoned = False,
             connection_pool = pool_new, ban_manager = ban_manager_new xdp_limiter0, rate_store = store,
             metrics = \<lparr>requests_total = (\<lambda>_. 0), requests_errors_total = 0, request_duration_seconds = []\<rparr>\<rparr>,
            tls_config)))))))))"

section \<open>Lemmas\<close>

definition initial_context :: "'x option \<Rightarrow> 's \<Rightarrow> ('conn, 'x, 's) ServerContext" where
  "initial_context l store =
     \<lparr>bheap = initial_backends, routing_table = routing_table_new [0, 1], active_connections = 0,
      active_wasm_payload = as_bytes default_wat_filter, wasm_poisoned = False,
      connection_pool = pool_new, ban_manager = ban_manager_new l, rate_store = store,
      metrics = \<lparr>requests_total = (\<lambda>_. 0), requests_errors_total = 0, request_duration_seconds = []\<rparr>\<rparr>"

lemma default_filter_nonempty [simp]: "as_bytes default_wat_filter \<noteq> []"
  by (simp add: as_bytes_def default_wat_filter_def)

lemma telemetry_ready:
  "init_telemetry inst rl g = Ret (Inr (), g') \<longleftrightarrow> (\<exists>tr. inst otlp_pipeline = Inr tr \<and> subscriber g = None
     \<and> g' = g\<lparr>propagator_set := True, subscriber := Some (case rl of Some f \<Rightarrow> f | None \<Rightarrow> ''info'', tr)\<rparr>)"
  by (cases "subscriber g") (auto simp: init_telemetry_def Let_def split: sum.splits)

lemma wasm_engine_ready:
  "wasm_engine_new eng = Ret e \<longleftrightarrow> eng \<lparr>pooling = True, total_core_instances = 1000\<rparr> = Inr e"
  by (simp add: wasm_engine_new_def wasm_engine_default_def Let_def outcome_simps)

lemma redis_store_ready: "redis_store_new pool url = Ret store \<longleftrightarrow> pool url = Inr store"
  by (simp add: redis_store_new_def outcome_simps)

lemma alloc_initial: "alloc initial_backends [] = ([0, 1], initial_backends)"
  by (simp add: alloc_def initial_backends_def upt_rec)

lemma pinned_round_robin:
  assumes "core_ids \<noteq> []" "unat idx + n < 2 ^ 64"
  shows "pinned core_ids idx n = map (\<lambda>i. Some (core_ids ! (i mod length core_ids))) [unat idx ..< unat idx + n]"
  using assms
proof (induction n arbitrary: idx)
  case (Suc n)
  have "unat (idx + 1) = unat idx + 1" using Suc.prems(2) by (simp add: unat_word_ariths)
  with Suc show ?case by (simp add: on_thread_start_def upt_rec)
qed simp

lemma async_main_context:
  assumes "async_main E tracing = Ret (c0, tls)"
  shows "\<exists>l store. xdp_limiter_init E = Ret l \<and> c0 = initial_context l store"
  using assms by (auto simp: async_main_def alloc_initial initial_context_def outcome_simps)

section \<open>Properties\<close>

text \<open>
  Every core gets one worker: when the cores are known, as many worker threads are started as there are
  cores and the threads, in the order they start, are pinned to the cores one by one.
\<close>

lemma one_worker_per_core:
  assumes "core_ids \<noteq> []" "length core_ids < 2 ^ 64"
  shows "pinned core_ids 0 (worker_threads core_ids) = map Some core_ids"
proof -
  have "map (\<lambda>i. Some (core_ids ! (i mod length core_ids))) [0 ..< length core_ids] = map Some core_ids"
    by (rule nth_equalityI) simp_all
  with assms pinned_round_robin [OF assms(1), of 0 "length core_ids"] show ?thesis
    by (simp add: worker_threads_def)
qed

text \<open>
  C29. What start-up needs. \<open>async_main\<close> reaches the server exactly when telemetry is not set up yet and its
  pipeline can be built, the metrics exporter can be installed, the certificate files give a valid
  configuration, an eBPF object that is there and loads has the program \<open>xdp_drop_ips\<close>, the Wasm engine
  can be created and the Redis URL is accepted; every other state of the outside world is a panic, in
  particular an object without that program, where all other eBPF failures only leave the limiter out.
  The context it builds has the two default backends and no limiter, the loaded one or none.
\<close>

theorem start_up_requirements:
  "((async_main E tracing = Ret (c0, tls)) \<longleftrightarrow>
     (\<exists>tr l e store. otlp_install E otlp_pipeline = Inr tr \<and> subscriber tracing = None
        \<and> init_metrics_exporter (prometheus E) 9091 = Inr ()
        \<and> load_tls_config (fst (tls_files E)) (snd (tls_files E)) (valid_pair E) ''certs/cert.pem'' ''certs/key.pem'' = Ret (Inr tls)
        \<and> xdp_limiter_init E = Ret l
        \<and> engine_new E \<lparr>pooling = True, total_core_instances = 1000\<rparr> = Inr e
        \<and> create_pool E (case redis_url_var E of Some u \<Rightarrow> u | None \<Rightarrow> ''redis://127.0.0.1/'') = Inr store
        \<and> c0 = initial_context l store))
   \<and> (xdp_limiter_init E = Panic \<longleftrightarrow>
       on_linux E \<and> (\<exists>code bpf. bpf_object E = Some code \<and> bpf_load (aya E) code = Inr bpf
          \<and> program_mut (aya E) bpf ''xdp_drop_ips'' = None))"
proof
  show "(xdp_limiter_init E = Panic) = (on_linux E \<and> (\<exists>code bpf. bpf_object E = Some code \<and> bpf_load (aya E) code = Inr bpf
          \<and> program_mut (aya E) bpf ''xdp_drop_ips'' = None))"
    by (auto simp: xdp_limiter_init_def linux_new_def unwrap_eq_Panic obind_eq_Panic split: option.splits sum.splits)
  show "(async_main E tracing = Ret (c0, tls)) = (\<exists>tr l e store. otlp_install E otlp_pipeline = Inr tr \<and> subscriber tracing = None
        \<and> init_metrics_exporter (prometheus E) 9091 = Inr ()
        \<and> load_tls_config (fst (tls_files E)) (snd (tls_files E)) (valid_pair E) ''certs/cert.pem'' ''certs/key.pem'' = Ret (Inr tls)
        \<and> xdp_limiter_init E = Ret l
        \<and> engine_new E \<lparr>pooling = True, total_core_instances = 1000\<rparr> = Inr e
        \<and> create_pool E (case redis_url_var E of Some u \<Rightarrow> u | None \<Rightarrow> ''redis://127.0.0.1/'') = Inr store
        \<and> c0 = initial_context l store)"
    by (auto simp: async_main_def telemetry_ready metrics_port_def wasm_engine_ready redis_store_ready redis_url_def
        alloc_initial initial_context_def outcome_simps)
qed

end
