(* ===== verification/Pipeline.thy ===== *)
theory Pipeline
  imports Server
begin

text \<open>
  \<open>forward_request\<close> of \<open>vortex-proxy/src/server.rs\<close> as the runtime executes it: a task that is suspended at
  every \<open>await\<close> and runs beside other tasks on other threads. A \<open>phase\<close> is a point between two operations
  on shared components, with the local variables that are still needed; \<open>advance\<close> does the next
  operation. The ban of a throttled client is two operations, and the selection of a backend is cut at every
  read: the snapshot of the table, then for each backend of it, in the order of the lazy iterator, its health,
  its breaker, and the scores of the best so far and of itself. When the client goes away, the task is dropped at the \<open>await\<close> where it is suspended
  (\<open>awaits\<close>), which releases its guard and closes the connection it holds (\<open>cancel\<close>). Run without
  interruption the phases are the handler of \<open>Server\<close>.
\<close>

section \<open>Phases\<close>

datatype 'c phase =
    Arrived
  | Limiting u64
  | Throttled RateLimitResult
  | Banning RateLimitResult
  | Selecting
  | Filtering "bref option" "bref list"
  | Probing "bref option" bref "bref list"
  | Scoring bref bref "bref list"
  | Comparing bref f64 bref "bref list"
  | Selected bref
  | Popping bref
  | PoolReady bref 'c
  | Connecting bref
  | Handshaking bref
  | Failing bref Response
  | Preparing bref 'c
  | Readying bref 'c Request
  | Sending bref 'c Request
  | Succeeding bref 'c string Response
  | Pushing bref 'c string Response
  | Observing bref string Response
  | Counting bref string Response
  | Releasing bref "string + Response"
  | Finished "string + Response"

fun advance ::
  "('w, 's, 'x) Deps \<Rightarrow> 'c RequestEnv \<Rightarrow> Request \<Rightarrow> SocketAddr \<Rightarrow> 'c phase \<Rightarrow> ('c, 'x, 's) ServerContext
     \<Rightarrow> ('c phase \<times> ('c, 'x, 's) ServerContext) outcome" where
  "advance D env req client_addr Arrived ctx =
     (if wasm_poisoned ctx then Panic
      else (case execute_filter (wasmtime D) (active_wasm_payload ctx) of _ \<Rightarrow>
              Ret (Limiting (request_cost (http D) req), ctx)))"
| "advance D env req client_addr (Limiting cost) ctx =
     (let (limit_res, store) = check_limit D (limit_env env) (rate_key D client_addr) 1000 (from_secs 60) cost (rate_store ctx)
      in Ret (case limit_res of
                Inr res \<Rightarrow> if \<not> allowed res then Throttled res else Selecting
              | Inl e \<Rightarrow> Selecting,
              ctx\<lparr>rate_store := store\<rparr>))"
| "advance D env req client_addr (Throttled res) ctx =
     (let (blocked, bm) = ban_block (xdp D) (addr_ip client_addr) (ban_manager ctx)
      in Ret (if blocked then Banning res else Finished (Inr (too_many_requests res)), ctx\<lparr>ban_manager := bm\<rparr>))"
| "advance D env req client_addr (Banning res) ctx =
     Ret (Finished (Inr (too_many_requests res)),
          ctx\<lparr>ban_manager := ban_record (ban_now env) (addr_ip client_addr) (from_secs 300) (ban_manager ctx)\<rparr>)"
| "advance D env req client_addr Selecting ctx = Ret (Filtering None (snapshot (routing_table ctx)), ctx)"
| "advance D env req client_addr (Filtering best todo) ctx =
     Ret (case todo of
            [] \<Rightarrow> (case best of None \<Rightarrow> Finished (Inr no_healthy_upstream) | Some b \<Rightarrow> Selected b)
          | b # bs \<Rightarrow> if is_healthy (bheap ctx ! b) then Probing best b bs else Filtering best bs, ctx)"
| "advance D env req client_addr (Probing best b bs) ctx =
     obind (cb_state (select_clock env) (circuit_breaker (bheap ctx ! b))) (\<lambda>st.
       Ret (if st = Open then Filtering best bs
            else (case best of None \<Rightarrow> Filtering (Some b) bs | Some a \<Rightarrow> Scoring a b bs), ctx))"
| "advance D env req client_addr (Scoring a b bs) ctx = Ret (Comparing a (score (bheap ctx) a) b bs, ctx)"
| "advance D env req client_addr (Comparing a score_a b bs) ctx =
     Ret (Filtering (Some (if cmp_or_equal score_a (score (bheap ctx) b) = Greater then b else a)) bs, ctx)"
| "advance D env req client_addr (Selected b) ctx =
     Ret (Popping b, on_backend b (\<lambda>x. x\<lparr>b_ewma := increment_active (b_ewma x)\<rparr>) ctx)"
| "advance D env req client_addr (Popping b) ctx =
     (let (popped, pool) = try_pop (pop_closed env) (addr (bheap ctx ! b)) (connection_pool ctx)
      in Ret (case popped of Some s \<Rightarrow> PoolReady b s | None \<Rightarrow> Connecting b, ctx\<lparr>connection_pool := pool\<rparr>))"
| "advance D env req client_addr (PoolReady b s) ctx =
     Ret (if pooled_ready env s then Preparing b s else Connecting b, ctx)"
| "advance D env req client_addr (Connecting b) ctx =
     Ret (if connect_ok env then Handshaking b else Failing b connection_failed, ctx)"
| "advance D env req client_addr (Handshaking b) ctx =
     Ret (case handshake env of None \<Rightarrow> Failing b handshake_failed | Some s \<Rightarrow> Preparing b s, ctx)"
| "advance D env req client_addr (Failing b response) ctx =
     obind (record_failure (failure_clock env) (circuit_breaker (bheap ctx ! b))) (\<lambda>cb.
       Ret (Releasing b (Inr response), on_backend b (\<lambda>x. x\<lparr>circuit_breaker := cb\<rparr>) ctx))"
| "advance D env req client_addr (Preparing b s) ctx =
     obind (prepare_request D env (addr (bheap ctx ! b)) req) (\<lambda>req'. Ret (Readying b s req', ctx))"
| "advance D env req client_addr (Readying b s req') ctx =
     Ret (if sender_ready env then Sending b s req' else Releasing b (Inl ''Failed to prepare connection sender''), ctx)"
| "advance D env req client_addr (Sending b s req') ctx =
     Ret (case send_request env s req' of
            None \<Rightarrow> Failing b request_failed
          | Some res \<Rightarrow> Succeeding b s (http_method req') res, ctx)"
| "advance D env req client_addr (Succeeding b s req_method res) ctx =
     Ret (Pushing b s req_method res, on_backend b (\<lambda>x. x\<lparr>circuit_breaker := record_success (circuit_breaker x)\<rparr>) ctx)"
| "advance D env req client_addr (Pushing b s req_method res) ctx =
     Ret (Observing b req_method res,
          ctx\<lparr>connection_pool := push (push_closed env) (addr (bheap ctx ! b)) s (connection_pool ctx)\<rparr>)"
| "advance D env req client_addr (Observing b req_method res) ctx =
     (let rtt_ms = f64_mul (as_secs_f64 (rtt_elapsed env)) (f64_of_nat 1000)
      in Ret (Counting b req_method res, on_backend b (\<lambda>x. x\<lparr>b_ewma := observe_latency (b_ewma x) rtt_ms\<rparr>) ctx))"
| "advance D env req client_addr (Counting b req_method res) ctx =
     (let rtt_s = as_secs_f64 (rtt_s_elapsed env)
      in Ret (Releasing b (Inr res), ctx\<lparr>metrics := record_metrics req_method rtt_s res (metrics ctx)\<rparr>))"
| "advance D env req client_addr (Releasing b r) ctx =
     Ret (Finished r, on_backend b (\<lambda>x. x\<lparr>b_ewma := drop_guard (b_ewma x)\<rparr>) ctx)"
| "advance D env req client_addr (Finished r) ctx = Ret (Finished r, ctx)"

text \<open>The backend a task refers to, the guard and the upstream connection it owns, where it is suspended.\<close>

fun backend_of :: "'c phase \<Rightarrow> bref option" where
  "backend_of (Selected b) = Some b"
| "backend_of (Popping b) = Some b"
| "backend_of (PoolReady b _) = Some b"
| "backend_of (Connecting b) = Some b"
| "backend_of (Handshaking b) = Some b"
| "backend_of (Failing b _) = Some b"
| "backend_of (Preparing b _) = Some b"
| "backend_of (Readying b _ _) = Some b"
| "backend_of (Sending b _ _) = Some b"
| "backend_of (Succeeding b _ _ _) = Some b"
| "backend_of (Pushing b _ _ _) = Some b"
| "backend_of (Observing b _ _) = Some b"
| "backend_of (Counting b _ _) = Some b"
| "backend_of (Releasing b _) = Some b"
| "backend_of _ = None"

definition guard_of :: "'c phase \<Rightarrow> bref option" where
  "guard_of p = (case p of Selected b \<Rightarrow> None | _ \<Rightarrow> backend_of p)"

text \<open>
  In the middle of the selection: the backends a task has yet to look at, and those it has found healthy and not
  discarded, to one of which its request can go. After it, the chosen backend.
\<close>

fun unread :: "'c phase \<Rightarrow> bref list" where
  "unread (Filtering _ bs) = bs"
| "unread (Probing _ _ bs) = bs"
| "unread (Scoring _ _ bs) = bs"
| "unread (Comparing _ _ _ bs) = bs"
| "unread _ = []"

fun candidates :: "'c phase \<Rightarrow> bref list" where
  "candidates (Filtering best _) = (case best of None \<Rightarrow> [] | Some a \<Rightarrow> [a])"
| "candidates (Probing best b _) = (case best of None \<Rightarrow> [b] | Some a \<Rightarrow> [a, b])"
| "candidates (Scoring a b _) = [a, b]"
| "candidates (Comparing a _ b _) = [a, b]"
| "candidates p = (case backend_of p of None \<Rightarrow> [] | Some b \<Rightarrow> [b])"

fun sender_of :: "'c phase \<Rightarrow> 'c option" where
  "sender_of (PoolReady _ s) = Some s"
| "sender_of (Preparing _ s) = Some s"
| "sender_of (Readying _ s _) = Some s"
| "sender_of (Sending _ s _) = Some s"
| "sender_of (Succeeding _ s _ _) = Some s"
| "sender_of (Pushing _ s _ _) = Some s"
| "sender_of _ = None"

fun awaits :: "'c phase \<Rightarrow> bool" where
  "awaits (Limiting _) = True"
| "awaits (PoolReady _ _) = True"
| "awaits (Connecting _) = True"
| "awaits (Handshaking _) = True"
| "awaits (Readying _ _ _) = True"
| "awaits (Sending _ _ _) = True"
| "awaits _ = False"

fun finished :: "'c phase \<Rightarrow> bool" where
  "finished (Finished _) = True"
| "finished _ = False"

fun reply_of :: "'c phase \<Rightarrow> (string + Response) option" where
  "reply_of (Finished r) = Some r"
| "reply_of _ = None"

text \<open>Dropping a suspended task runs the destructor of the guard it holds.\<close>

definition cancel :: "'c phase \<Rightarrow> ('c, 'x, 's) ServerContext \<Rightarrow> ('c, 'x, 's) ServerContext" where
  "cancel p ctx = (case guard_of p of
       Some b \<Rightarrow> on_backend b (\<lambda>x. x\<lparr>b_ewma := drop_guard (b_ewma x)\<rparr>) ctx
     | None \<Rightarrow> ctx)"

text \<open>
  A task that waits for the rate store may be dropped after the check has reached the store: it is carried
  out there, and its answer meets nobody.
\<close>

definition abandon_check ::
  "('w, 's, 'x) Deps \<Rightarrow> rate_env \<Rightarrow> SocketAddr \<Rightarrow> u64 \<Rightarrow> ('c, 'x, 's) ServerContext \<Rightarrow> ('c, 'x, 's) ServerContext" where
  "abandon_check D e client_addr cost ctx =
     ctx\<lparr>rate_store := snd (check_limit D e (rate_key D client_addr) 1000 (from_secs 60) cost (rate_store ctx))\<rparr>"

section \<open>Running to the end\<close>

text \<open>
  The number of operations that can still follow: those of the stages of the handler, and in the middle of a
  selection the reads that are left, of which there are at most four for a backend.
\<close>

fun rank :: "'c phase \<Rightarrow> nat" where
  "rank Arrived = 17"
| "rank (Limiting _) = 16"
| "rank (Throttled _) = 2"
| "rank (Banning _) = 1"
| "rank Selecting = 15"
| "rank (Filtering _ _) = 14"
| "rank (Probing _ _ _) = 14"
| "rank (Scoring _ _ _) = 14"
| "rank (Comparing _ _ _ _) = 14"
| "rank (Selected _) = 13"
| "rank (Popping _) = 12"
| "rank (PoolReady _ _) = 11"
| "rank (Connecting _) = 10"
| "rank (Handshaking _) = 9"
| "rank (Failing _ _) = 2"
| "rank (Preparing _ _) = 8"
| "rank (Readying _ _ _) = 7"
| "rank (Sending _ _ _) = 6"
| "rank (Succeeding _ _ _ _) = 5"
| "rank (Pushing _ _ _ _) = 4"
| "rank (Observing _ _ _) = 3"
| "rank (Counting _ _ _) = 2"
| "rank (Releasing _ _) = 1"
| "rank (Finished _) = 0"

fun reads :: "'c phase \<Rightarrow> nat" where
  "reads (Filtering _ bs) = 4 * length bs"
| "reads (Probing _ _ bs) = 4 * length bs + 3"
| "reads (Scoring _ _ bs) = 4 * length bs + 2"
| "reads (Comparing _ _ _ bs) = 4 * length bs + 1"
| "reads _ = 0"

text \<open>The length of the snapshot of the table that the step from \<open>p\<close> to \<open>p'\<close> loads, if it loads one.\<close>

definition loads :: "'c phase \<Rightarrow> 'c phase \<Rightarrow> nat list" where
  "loads p p' = (if p = Selecting \<and> p' \<noteq> Selecting then [length (unread p')] else [])"

lemma advance_rank:
  assumes "advance D env req client p ctx = Ret (p', ctx')" "\<not> finished p"
  shows "rank p' < rank p \<or> rank p' = rank p \<and> reads p' < reads p"
    and "rank p' + reads p' < rank p + reads p + 4 * sum_list (loads p p')"
  using assms by (cases p; auto simp: loads_def outcome_simps Let_def split: if_splits option.splits sum.splits prod.splits list.splits)+

lemma reply_of_None: "reply_of p = None \<longleftrightarrow> \<not> finished p"
  by (cases p) simp_all

lemma obind_cong [fundef_cong]:
  "m = m' \<Longrightarrow> (\<And>a. m' = Ret a \<Longrightarrow> f a = g a) \<Longrightarrow> obind m f = obind m' g"
  by (cases m') auto

function forward_phases ::
  "('w, 's, 'x) Deps \<Rightarrow> 'c RequestEnv \<Rightarrow> Request \<Rightarrow> SocketAddr \<Rightarrow> 'c phase \<Rightarrow> ('c, 'x, 's) ServerContext
     \<Rightarrow> ((string + Response) \<times> ('c, 'x, 's) ServerContext) outcome" where
  "forward_phases D env req client_addr p ctx = (case reply_of p of
       Some r \<Rightarrow> Ret (r, ctx)
     | None \<Rightarrow> obind (advance D env req client_addr p ctx) (\<lambda>(p', ctx'). forward_phases D env req client_addr p' ctx'))"
  by pat_completeness auto

termination
  by (relation "measures [\<lambda>(D, env, req, client, p, ctx). rank p, \<lambda>(D, env, req, client, p, ctx). reads p]")
    (auto dest: advance_rank(1) simp: reply_of_None)

declare forward_phases.simps [simp del]

lemma forward_phases_step:
  "\<not> finished p \<Longrightarrow> forward_phases D env req client p ctx
     = obind (advance D env req client p ctx) (\<lambda>(p', ctx'). forward_phases D env req client p' ctx')"
  by (subst forward_phases.simps) (cases p; simp)

lemma forward_phases_finished [simp]: "forward_phases D env req client (Finished r) ctx = Ret (r, ctx)"
  by (subst forward_phases.simps) simp

text \<open>The exchange with a chosen backend, from taking the guard to releasing it.\<close>

lemma phases_failing:
  "forward_phases D env req client (Failing b resp) ctx
     = obind (upstream_failure (failure_clock env) b resp ctx)
         (\<lambda>(r, ctx'). Ret (r, on_backend b (\<lambda>x. x\<lparr>b_ewma := drop_guard (b_ewma x)\<rparr>) ctx'))"
  by (cases "record_failure (failure_clock env) (circuit_breaker (bheap ctx ! b))")
    (simp_all add: forward_phases_step upstream_failure_def)

lemma phases_preparing:
  assumes "addr (bheap ctx ! b) = a"
  shows "forward_phases D env req client (Preparing b s) ctx
     = obind (obind (prepare_request D env a req) (\<lambda>req'.
          if \<not> sender_ready env then Ret (Inl ''Failed to prepare connection sender'', ctx)
          else (case send_request env s req' of
                  None \<Rightarrow> upstream_failure (failure_clock env) b request_failed ctx
                | Some res \<Rightarrow> Ret (Inr res, upstream_success env b a s (http_method req') res ctx))))
        (\<lambda>(r, ctx'). Ret (r, on_backend b (\<lambda>x. x\<lparr>b_ewma := drop_guard (b_ewma x)\<rparr>) ctx'))"
proof -
  have same: "addr (modify b (\<lambda>x. x\<lparr>circuit_breaker := f x\<rparr>) h ! b) = addr (h ! b)" for f h
    by (cases "b < length h") (simp_all add: nth_modify, simp add: modify_def list_update_beyond)
  show ?thesis
    by (cases "prepare_request D env a req")
      (auto simp: forward_phases_step [of "Preparing b s"] forward_phases_step [of "Readying b s _"] forward_phases_step [of "Sending b s _"]
        forward_phases_step [of "Succeeding b s _ _"] forward_phases_step [of "Pushing b s _ _"] forward_phases_step [of "Observing b _ _"]
        forward_phases_step [of "Counting b _ _"] forward_phases_step [of "Releasing b _"]
        phases_failing upstream_success_def Let_def same assms split: option.split)
qed

lemma phases_popping:
  "forward_phases D env req client (Popping b) ctx
     = obind (upstream_exchange D env req b ctx)
         (\<lambda>(r, ctx'). Ret (r, on_backend b (\<lambda>x. x\<lparr>b_ewma := drop_guard (b_ewma x)\<rparr>) ctx'))"
proof -
  obtain popped pool where pop: "try_pop (pop_closed env) (addr (bheap ctx ! b)) (connection_pool ctx) = (popped, pool)"
    by fastforce
  have conn: "forward_phases D env req client (Connecting b) c
      = (if connect_ok env then (case handshake env of
            None \<Rightarrow> forward_phases D env req client (Failing b handshake_failed) c
          | Some s \<Rightarrow> forward_phases D env req client (Preparing b s) c)
         else forward_phases D env req client (Failing b connection_failed) c)" for c
    by (simp add: forward_phases_step [of "Connecting b"] forward_phases_step [of "Handshaking b"] split: option.split)
  have pool: "forward_phases D env req client (PoolReady b s) c
      = (if pooled_ready env s then forward_phases D env req client (Preparing b s) c
         else forward_phases D env req client (Connecting b) c)" for s c
    by (simp add: forward_phases_step [of "PoolReady b s"])
  note prep = phases_preparing [of "ctx\<lparr>connection_pool := pool\<rparr>" b "addr (bheap ctx ! b)", simplified]
  show ?thesis
    by (simp add: forward_phases_step [of "Popping b"] upstream_exchange_def pop conn pool acquire_sender_def
        phases_failing prep Let_def split: option.split)
qed

text \<open>The selection without interference: the reads of the phases make the choice of \<open>select_best_backend\<close>.\<close>

lemma phases_filtering:
  "forward_phases D env req client (Filtering best bs) ctx
     = obind (ofilter (available (select_clock env) (bheap ctx)) bs) (\<lambda>ys.
         forward_phases D env req client
           (Filtering (case best of None \<Rightarrow> min_by (score_cmp (bheap ctx)) ys | Some a \<Rightarrow> Some (min_by_from (score_cmp (bheap ctx)) a ys)) []) ctx)"
proof (induction bs arbitrary: best)
  case (Cons b bs)
  let ?f = "ofilter (available (select_clock env) (bheap ctx)) bs"
  show ?case
  proof (cases "is_healthy (bheap ctx ! b)")
    case False
    then have "available (select_clock env) (bheap ctx) b = Ret False" by (simp add: available_def)
    with False show ?thesis
      by (cases ?f) (simp_all add: forward_phases_step [of "Filtering best (b # bs)"] Cons.IH)
  next
    case True
    then have a: "available (select_clock env) (bheap ctx) b
        = obind (cb_state (select_clock env) (circuit_breaker (bheap ctx ! b))) (\<lambda>st. Ret (st \<noteq> Open))"
      by (simp add: available_def)
    from True show ?thesis
      by (cases "cb_state (select_clock env) (circuit_breaker (bheap ctx ! b))"; cases ?f)
        (auto simp: forward_phases_step [of "Filtering best (b # bs)"] forward_phases_step [of "Probing best b bs"]
          forward_phases_step [of "Scoring _ b bs"] forward_phases_step [of "Comparing _ _ b bs"] Cons.IH a score_cmp_def
          split: option.split)
  qed
qed (simp split: option.split)

lemma phases_selecting:
  "forward_phases D env req client Selecting ctx = proxy_upstream D env req ctx"
  by (cases "ofilter (available (select_clock env) (bheap ctx)) (snapshot (routing_table ctx))")
    (auto simp: forward_phases_step [of Selecting] phases_filtering [of _ _ _ _ None "snapshot _"] forward_phases_step [of "Filtering _ []"]
      forward_phases_step [of "Selected _"] phases_popping proxy_upstream_def select_best_backend_def split: option.split)

text \<open>
  A request that is advanced operation by operation from its arrival, with nothing in between, returns, panics
  and changes the state as \<open>forward_request\<close> does, so that what is shown of the one holds of the other.
\<close>

lemma phases_are_forward_request:
  "forward_phases D env req client Arrived ctx = forward_request D env req client ctx"
proof -
  obtain lim store where c:
    "check_limit D (limit_env env) (rate_key D client) 1000 (from_secs 60) (request_cost (http D) req) (rate_store ctx) = (lim, store)"
    by fastforce
  have thr: "forward_phases D env req client (Throttled res) c = Ret (Inr (too_many_requests res),
      c\<lparr>ban_manager := ban_ip (xdp D) (ban_now env) (addr_ip client) (from_secs 300) (ban_manager c)\<rparr>)" for res c
    by (simp add: forward_phases_step [of "Throttled _"] forward_phases_step [of "Banning _"] ban_ip_halves split: prod.split)
  show ?thesis
    by (auto simp: forward_phases_step [of Arrived] forward_phases_step [of "Limiting _"] forward_request_def c thr
        phases_selecting split: sum.split)
qed

section \<open>What one operation does\<close>

definition refers_to :: "heap \<Rightarrow> 'c phase \<Rightarrow> bool" where
  "refers_to h p \<longleftrightarrow> (\<forall>b \<in> set (candidates p) \<union> set (unread p). b < length h)"

lemma backend_is_candidate: "backend_of p = Some b \<Longrightarrow> b \<in> set (candidates p)"
  by (cases p) simp_all

text \<open>Where the backends of a phase come from: the snapshot, and a test of their health.\<close>

lemma advance_candidates:
  assumes "advance D env req client p ctx = Ret (p', ctx')"
  shows "set (candidates p') \<subseteq> set (candidates p) \<union> {b \<in> set (unread p). healthy (bheap ctx ! b)}"
    and "set (unread p') \<subseteq> set (unread p) \<union> set (backends (routing_table ctx))"
  using assms by (cases p; auto simp: outcome_simps Let_def snapshot_def is_healthy_def
      split: if_splits option.splits sum.splits prod.splits list.splits)+

text \<open>
  The heap between two phases: no backend disappears or moves, and its count of active requests changes
  with the guard the task takes or releases.
\<close>

definition heap_step :: "'c phase \<Rightarrow> 'c phase \<Rightarrow> heap \<Rightarrow> heap \<Rightarrow> bool" where
  "heap_step p p' h h' \<longleftrightarrow> length h' = length h \<and> (\<forall>i < length h. addr (h' ! i) = addr (h ! i)
     \<and> active_requests (b_ewma (h' ! i)) + of_bool (guard_of p = Some i)
       = active_requests (b_ewma (h ! i)) + of_bool (guard_of p' = Some i))"

lemma guard_arith [simp]:
  "active_requests (increment_active e) = active_requests e + 1" "active_requests (drop_guard e) = active_requests e - 1"
  by (simp_all add: ewma_defs)

lemma observe_active [simp]: "active_requests (observe_latency e rtt) = active_requests e"
  by (simp add: frame_simps)

lemma advance_heap:
  assumes "advance D env req client p ctx = Ret (p', ctx')" "refers_to (bheap ctx) p" "routing_ok (bheap ctx) (routing_table ctx)"
  shows "heap_step p p' (bheap ctx) (bheap ctx')" and "refers_to (bheap ctx') p'"
proof -
  show "heap_step p p' (bheap ctx) (bheap ctx')"
    using assms(1,2)
    by (cases p) (auto simp: heap_step_def refers_to_def guard_of_def outcome_simps nth_modify Let_def
        split: if_splits option.splits sum.splits prod.splits list.splits)
  then show "refers_to (bheap ctx') p'"
    using advance_candidates [OF assms(1)] assms(2,3) by (auto simp: refers_to_def heap_step_def routing_ok_def list_all_iff)
qed

lemma advance_ok:
  assumes "advance D env req client p ctx = Ret (p', ctx')" "env_ok env" "shared_ok ctx"
  shows "shared_ok ctx'" and "active_connections ctx' = active_connections ctx" and "wasm_poisoned ctx' = wasm_poisoned ctx"
proof -
  have lat: "latency (f64_mul (as_secs_f64 (rtt_elapsed env)) (f64_of_nat 1000))"
    using assms(2) by (intro rtt_latency) (simp add: env_ok_def)
  show "shared_ok ctx'"
    using assms(1,3)
    by (cases p) (auto simp: shared_ok_def outcome_simps Let_def backend_ok_observe [OF _ lat]
        split: if_splits option.splits sum.splits prod.splits list.splits intro!: routing_ok_modify)
  show "active_connections ctx' = active_connections ctx" "wasm_poisoned ctx' = wasm_poisoned ctx"
    using assms(1)
    by (cases p; auto simp: outcome_simps Let_def split: if_splits option.splits sum.splits prod.splits list.splits)+
qed

text \<open>Who changes the ban manager: the two halves of a ban.\<close>

fun banning :: "'c phase \<Rightarrow> bool" where
  "banning (Banning _) = True"
| "banning _ = False"

lemma advance_bans:
  assumes "advance D env req client p ctx = Ret (p', ctx')"
  obtains "ban_manager ctx' = ban_manager ctx" "\<not> banning p" "\<not> banning p'"
  | "ban_block (xdp D) (addr_ip client) (ban_manager ctx) = (banning p', ban_manager ctx')" "\<not> banning p"
  | "ban_manager ctx' = ban_record (ban_now env) (addr_ip client) (from_secs 300) (ban_manager ctx)" "banning p" "\<not> banning p'"
  using assms by (cases p) (auto simp: outcome_simps Let_def split: if_splits option.splits sum.splits prod.splits list.splits)

text \<open>
  The upstream connections: an operation keeps the one the task has, drops it, returns it to the pool,
  takes one from the pool or makes one by a handshake.
\<close>

lemma advance_pool:
  assumes "advance D env req client p ctx = Ret (p', ctx')"
  shows "connection_pool ctx' = connection_pool ctx
        \<and> (sender_of p' = None \<or> sender_of p' = sender_of p \<or> (\<exists>b. p = Handshaking b \<and> sender_of p' = handshake env))
    \<or> (\<exists>b. p = Popping b \<and> backend_of p' = Some b
        \<and> try_pop (pop_closed env) (addr (bheap ctx ! b)) (connection_pool ctx) = (sender_of p', connection_pool ctx'))
    \<or> (\<exists>b s m res. p = Pushing b s m res \<and> sender_of p' = None
        \<and> connection_pool ctx' = push (push_closed env) (addr (bheap ctx ! b)) s (connection_pool ctx))"
  using assms by (cases p) (auto simp: outcome_simps Let_def split: if_splits option.splits sum.splits prod.splits list.splits)

section \<open>No phase is stuck\<close>

lemma advance_returns:
  assumes "sane D env req ctx" "shared_ok ctx" "refers_to (bheap ctx) p"
  shows "\<exists>p' ctx'. advance D env req client p ctx = Ret (p', ctx')"
proof (cases p)
  case (Probing best b bs)
  obtain now where "select_clock env = Some now" using assms(1) by (auto simp: sane_def)
  with Probing cb_state_clock [of now "circuit_breaker (bheap ctx ! b)"] show ?thesis by auto
next
  case (Failing b resp)
  obtain t where "failure_clock env = Some t" using assms(1) by (auto simp: sane_def)
  with Failing record_failure_Some [of t "circuit_breaker (bheap ctx ! b)"] show ?thesis by auto
next
  case (Preparing b s)
  have "\<exists>req'. prepare_request D env (addr (bheap ctx ! b)) req = Ret req'"
    using assms(1,3) Preparing by (intro prepare_request_returns) (simp_all add: sane_def list_all_length refers_to_def)
  with Preparing show ?thesis by auto
qed (use assms(1) in \<open>auto simp: sane_def Let_def split: prod.split\<close>)

end
