(* ===== verification/Listener.thy ===== *)
theory Listener
  imports Pipeline Tls
begin

text \<open>
  \<open>start_server\<close> of \<open>vortex-proxy/src/server.rs\<close>: the accept loop and the task of a connection. A task takes its
  \<open>ActiveConnGuard\<close> when it first runs, makes the TLS handshake if there is an acceptor, and then serves
  requests one after another until the peer leaves, a handler returns an error, or \<open>hyper\<close> gives the
  connection up; when it ends, in whatever phase, its guard and the guard of the request in flight are dropped.
\<close>

section \<open>The accept loop\<close>

text \<open>
  \<open>start_server\<close>: an address that cannot be bound is an error; otherwise the loop takes the events of the
  listener and of the shutdown channel until the latter yields anything at all.
\<close>

definition start_server :: "string + unit \<Rightarrow> accept_event list \<Rightarrow> string + (SocketAddr list \<times> bool)" where
  "start_server bind events = sbind bind (\<lambda>_. Inr (accept_loop events))"

text \<open>
  The shutdown channel of \<open>async_main\<close>. The signal task sends one message when the signal arrives, and
  drops the only sender when it ends: a receiver then gets the message, or \<open>Closed\<close> if none was sent.
  The loop ignores which.
\<close>

datatype recv_result = Received | ChannelClosed

definition ctrl_c_task :: "bool \<Rightarrow> unit list" where
  "ctrl_c_task signal_ok = (if signal_ok then [()] else [])"

definition shutdown_recv :: "unit list \<Rightarrow> recv_result" where
  "shutdown_recv sent = (if sent \<noteq> [] then Received else ChannelClosed)"

definition select_shutdown :: "recv_result \<Rightarrow> accept_event" where
  "select_shutdown r = (case r of _ \<Rightarrow> ShutdownSignal)"

section \<open>A connection\<close>

datatype 'c conn_phase =
    Spawned
  | TlsAccepting
  | Waiting
  | Serving Request "'c phase"
  | Ended

record 'c Conn =
  peer :: SocketAddr
  conn_phase :: "'c conn_phase"

definition conn_new :: "SocketAddr \<Rightarrow> 'c Conn" where
  "conn_new a = \<lparr>peer = a, conn_phase = Spawned\<rparr>"

text \<open>The first poll of the task, with or without a TLS acceptor.\<close>

definition conn_start :: "bool \<Rightarrow> 'c conn_phase" where
  "conn_start tls = (if tls then TlsAccepting else Waiting)"

text \<open>
  The end of the handshake: an error ends the task, otherwise the stream is given to the HTTP/1 server,
  whatever protocol was negotiated.
\<close>

definition tls_accepted :: "string + unit \<Rightarrow> 'c conn_phase" where
  "tls_accepted r = (case r of Inl e \<Rightarrow> Ended | Inr _ \<Rightarrow> Waiting)"

text \<open>After a reply the connection is kept; after an error of the handler \<open>hyper\<close> closes it.\<close>

definition after_reply :: "string + Response \<Rightarrow> 'c conn_phase" where
  "after_reply r = (case r of Inr response \<Rightarrow> Waiting | Inl e \<Rightarrow> Ended)"

fun counted :: "'c conn_phase \<Rightarrow> bool" where
  "counted Spawned = False"
| "counted Ended = False"
| "counted _ = True"

text \<open>Entering a phase: the guard is dropped with the task.\<close>

definition leave :: "'c conn_phase \<Rightarrow> ('c, 'x, 's) ServerContext \<Rightarrow> ('c, 'x, 's) ServerContext" where
  "leave ph c = (if counted ph then c else conn_close c)"

fun conn_guard :: "'c conn_phase \<Rightarrow> bref option" where
  "conn_guard (Serving _ p) = guard_of p"
| "conn_guard _ = None"

fun conn_backend :: "'c conn_phase \<Rightarrow> bref option" where
  "conn_backend (Serving _ p) = backend_of p"
| "conn_backend _ = None"

fun conn_candidates :: "'c conn_phase \<Rightarrow> bref list" where
  "conn_candidates (Serving _ p) = candidates p"
| "conn_candidates _ = []"

fun conn_unread :: "'c conn_phase \<Rightarrow> bref list" where
  "conn_unread (Serving _ p) = unread p"
| "conn_unread _ = []"

text \<open>The task has blocked its client in the kernel and not yet written the expiry.\<close>

fun conn_banning :: "'c conn_phase \<Rightarrow> bool" where
  "conn_banning (Serving _ p) = banning p"
| "conn_banning _ = False"

fun conn_sender :: "'c conn_phase \<Rightarrow> 'c option" where
  "conn_sender (Serving _ p) = sender_of p"
| "conn_sender _ = None"

text \<open>Where a task can be dropped: at an \<open>await\<close>, of the server between requests or of the handler in one.\<close>

fun droppable :: "'c conn_phase \<Rightarrow> bool" where
  "droppable TlsAccepting = True"
| "droppable Waiting = True"
| "droppable (Serving _ p) = awaits p"
| "droppable _ = False"

fun conn_cancel :: "'c conn_phase \<Rightarrow> ('c, 'x, 's) ServerContext \<Rightarrow> ('c, 'x, 's) ServerContext" where
  "conn_cancel (Serving _ p) c = cancel p c"
| "conn_cancel _ c = c"

section \<open>The connections of the proxy together\<close>

definition set_phase :: "nat \<Rightarrow> 'c conn_phase \<Rightarrow> 'c Conn list \<Rightarrow> 'c Conn list" where
  "set_phase i ph cs = cs[i := (cs ! i)\<lparr>conn_phase := ph\<rparr>]"

lemma phase_at: "i < length cs \<Longrightarrow> conn_phase (set_phase i ph cs ! j) = (if j = i then ph else conn_phase (cs ! j))"
  by (simp add: set_phase_def nth_list_update)

definition live_conns :: "'c Conn list \<Rightarrow> nat" where
  "live_conns cs = length (filter (\<lambda>c. counted (conn_phase c)) cs)"

definition guards_on :: "bref \<Rightarrow> 'c Conn list \<Rightarrow> nat" where
  "guards_on b cs = length (filter (\<lambda>c. conn_guard (conn_phase c) = Some b) cs)"

lemma count_update:
  "i < length xs \<Longrightarrow> length (filter P (xs[i := y])) + of_bool (P (xs ! i)) = length (filter P xs) + of_bool (P y)"
proof (induction xs arbitrary: i)
  case (Cons x xs)
  then show ?case by (cases i) auto
qed simp

lemma live_set_phase:
  "i < length cs \<Longrightarrow> live_conns (set_phase i ph cs) + of_bool (counted (conn_phase (cs ! i))) = live_conns cs + of_bool (counted ph)"
  using count_update [of i cs "\<lambda>c. counted (conn_phase c)" "(cs ! i)\<lparr>conn_phase := ph\<rparr>"]
  by (simp add: live_conns_def set_phase_def)

lemma guards_set_phase:
  "i < length cs \<Longrightarrow> guards_on b (set_phase i ph cs) + of_bool (conn_guard (conn_phase (cs ! i)) = Some b)
     = guards_on b cs + of_bool (conn_guard ph = Some b)"
  using count_update [of i cs "\<lambda>c. conn_guard (conn_phase c) = Some b" "(cs ! i)\<lparr>conn_phase := ph\<rparr>"]
  by (simp add: guards_on_def set_phase_def)

text \<open>A counter that follows a count of tasks keeps following it.\<close>

lemma counter_follows:
  fixes n n' :: "'a::len word"
  assumes "n = of_nat k" "n' + of_bool p = n + of_bool q" "k' + of_bool p = k + of_bool q"
  shows "n' = of_nat k'"
proof -
  have "n' + of_bool p = of_nat (k' + of_bool p)" unfolding assms(2,3) assms(1) by (cases q) simp_all
  then show ?thesis by (cases p) simp_all
qed

text \<open>
  Ownership: the backends requests refer to exist; their counts of active requests are the guards held;
  an upstream connection is to its own address and is in the pool or with one task, never both.
\<close>

definition refs_inv :: "heap \<Rightarrow> 'c Conn list \<Rightarrow> bool" where
  "refs_inv h cs \<longleftrightarrow> list_all (\<lambda>c. \<forall>b \<in> set (conn_candidates (conn_phase c)) \<union> set (conn_unread (conn_phase c)). b < length h) cs"

lemma conn_backend_candidate: "conn_backend ph = Some b \<Longrightarrow> b \<in> set (conn_candidates ph)"
  by (cases ph) (simp_all add: backend_is_candidate)

lemma refs_inv_backend: "refs_inv h cs \<Longrightarrow> c \<in> set cs \<Longrightarrow> conn_backend (conn_phase c) = Some b \<Longrightarrow> b < length h"
  using conn_backend_candidate by (fastforce simp: refs_inv_def list_all_iff)

definition guards_inv :: "heap \<Rightarrow> 'c Conn list \<Rightarrow> bool" where
  "guards_inv h cs \<longleftrightarrow> (\<forall>b < length h. active_requests (b_ewma (h ! b)) = of_nat (guards_on b cs))"

text \<open>The connection \<open>i\<close>, in phase \<open>ph\<close>, is the only place where the sender \<open>s\<close> is, and \<open>s\<close> leads to its backend.\<close>

definition holds_alone ::
  "('c \<Rightarrow> SocketAddr) \<Rightarrow> heap \<Rightarrow> 'c ConnectionPool \<Rightarrow> 'c Conn list \<Rightarrow> nat \<Rightarrow> 'c conn_phase \<Rightarrow> 'c \<Rightarrow> bool" where
  "holds_alone owner h pool cs i ph s \<longleftrightarrow> (\<forall>a. s \<notin> set (idle pool a))
     \<and> (\<exists>b. conn_backend ph = Some b \<and> owner s = addr (h ! b))
     \<and> (\<forall>j < length cs. conn_sender (conn_phase (cs ! j)) = Some s \<longrightarrow> j = i)"

definition senders_inv :: "('c \<Rightarrow> SocketAddr) \<Rightarrow> heap \<Rightarrow> 'c ConnectionPool \<Rightarrow> 'c Conn list \<Rightarrow> bool" where
  "senders_inv owner h pool cs \<longleftrightarrow> conn_pool.sound owner pool \<and>
     (\<forall>i < length cs. \<forall>s. conn_sender (conn_phase (cs ! i)) = Some s \<longrightarrow> holds_alone owner h pool cs i (conn_phase (cs ! i)) s)"

text \<open>A sender a handshake may yield: a connection to the backend that nobody has.\<close>

definition fresh_sender :: "('c \<Rightarrow> SocketAddr) \<Rightarrow> heap \<Rightarrow> 'c ConnectionPool \<Rightarrow> 'c Conn list \<Rightarrow> bref \<Rightarrow> 'c \<Rightarrow> bool" where
  "fresh_sender owner h pool cs b s \<longleftrightarrow> owner s = addr (h ! b) \<and> (\<forall>a. s \<notin> set (idle pool a))
     \<and> list_all (\<lambda>c. conn_sender (conn_phase c) \<noteq> Some s) cs"

text \<open>How the heap may change while one connection goes from one phase to another.\<close>

definition conn_heap_step :: "'c conn_phase \<Rightarrow> 'c conn_phase \<Rightarrow> heap \<Rightarrow> heap \<Rightarrow> bool" where
  "conn_heap_step ph ph' h h' \<longleftrightarrow> length h' = length h \<and> (\<forall>b < length h. addr (h' ! b) = addr (h ! b)
     \<and> active_requests (b_ewma (h' ! b)) + of_bool (conn_guard ph = Some b)
       = active_requests (b_ewma (h ! b)) + of_bool (conn_guard ph' = Some b))"

lemma guards_inv_step:
  assumes "guards_inv h cs" "i < length cs" "conn_heap_step (conn_phase (cs ! i)) ph h h'"
  shows "guards_inv h' (set_phase i ph cs)"
  unfolding guards_inv_def
proof (intro allI impI)
  fix b assume "b < length h'"
  then have b: "b < length h" using assms(3) by (simp add: conn_heap_step_def)
  show "active_requests (b_ewma (h' ! b)) = of_nat (guards_on b (set_phase i ph cs))"
  proof (rule counter_follows)
    show "active_requests (b_ewma (h ! b)) = of_nat (guards_on b cs)" using assms(1) b by (simp add: guards_inv_def)
    show "active_requests (b_ewma (h' ! b)) + of_bool (conn_guard (conn_phase (cs ! i)) = Some b)
        = active_requests (b_ewma (h ! b)) + of_bool (conn_guard ph = Some b)"
      using assms(3) b by (simp add: conn_heap_step_def)
  qed (rule guards_set_phase [OF assms(2)])
qed

lemma refs_inv_step:
  assumes "refs_inv h cs" "i < length cs" "length h' = length h"
    and "\<And>b. b \<in> set (conn_candidates ph) \<union> set (conn_unread ph) \<Longrightarrow> b < length h"
  shows "refs_inv h' (set_phase i ph cs)"
  using assms unfolding refs_inv_def list_all_length set_phase_def by (auto simp: nth_list_update)

text \<open>
  One connection changes phase and the pool changes with it: what the pool gains, the connection gave
  up; what the connection gains, nobody else has.
\<close>

lemma senders_inv_step:
  assumes "senders_inv owner h pool cs" "refs_inv h cs" "i < length cs" "conn_heap_step ph0 ph1 h h'" "conn_pool.sound owner pool'"
    and gain: "\<And>a s. s \<in> set (idle pool' a) \<Longrightarrow>
      s \<in> set (idle pool a) \<or> conn_sender (conn_phase (cs ! i)) = Some s \<and> conn_sender ph \<noteq> Some s"
    and own: "\<And>s. conn_sender ph = Some s \<Longrightarrow> holds_alone owner h' pool' cs i ph s"
  shows "senders_inv owner h' pool' (set_phase i ph cs)"
  unfolding senders_inv_def
proof (intro conjI allI impI)
  show "conn_pool.sound owner pool'" by fact
next
  have at: "conn_phase (set_phase i ph cs ! j) = (if j = i then ph else conn_phase (cs ! j))" if "j < length cs" for j
    using that by (simp add: set_phase_def nth_list_update)
  have len: "length (set_phase i ph cs) = length cs" by (simp add: set_phase_def)
  fix j s assume "j < length (set_phase i ph cs)" and s: "conn_sender (conn_phase (set_phase i ph cs ! j)) = Some s"
  then have j: "j < length cs" by (simp add: len)
  show "holds_alone owner h' pool' (set_phase i ph cs) j (conn_phase (set_phase i ph cs ! j)) s"
  proof (cases "j = i")
    case True
    with own [of s] s j at show ?thesis by (auto simp: holds_alone_def len split: if_splits)
  next
    case False
    then have old: "conn_sender (conn_phase (cs ! j)) = Some s" using s j by (simp add: at)
    then have inv: "holds_alone owner h pool cs j (conn_phase (cs ! j)) s" using assms(1) j by (simp add: senders_inv_def)
    then have i: "conn_sender (conn_phase (cs ! i)) \<noteq> Some s" using assms(3) False by (auto simp: holds_alone_def)
    have n: "conn_sender ph \<noteq> Some s" using own [of s] old j False by (auto simp: holds_alone_def)
    have "\<forall>a. s \<notin> set (idle pool' a)" using gain i inv by (auto simp: holds_alone_def)
    moreover obtain b where b: "conn_backend (conn_phase (cs ! j)) = Some b" "owner s = addr (h ! b)"
      using inv by (auto simp: holds_alone_def)
    have "b < length h" using refs_inv_backend [OF assms(2) nth_mem [OF j] b(1)] .
    then have "addr (h' ! b) = addr (h ! b)" using assms(4) by (simp add: conn_heap_step_def)
    ultimately show ?thesis using b False j inv n by (auto simp: holds_alone_def at len)
  qed
qed

text \<open>A connection that takes part in no exchange of senders, or drops its own.\<close>

lemma senders_inv_drop:
  assumes "senders_inv owner h pool cs" "refs_inv h cs" "i < length cs" "conn_heap_step ph0 ph1 h h'" "conn_sender ph = None"
  shows "senders_inv owner h' pool (set_phase i ph cs)"
  using assms by (intro senders_inv_step [OF assms(1-4)]) (auto simp: senders_inv_def)

text \<open>What the pool gives and takes, seen from all connections.\<close>

lemma in_set_tl: "x \<in> set (tl xs) \<Longrightarrow> x \<in> set xs"
  by (cases xs) simp_all

lemma pop_shrinks:
  "try_pop closed a pool = (r, pool') \<Longrightarrow> x \<in> set (idle pool' b) \<Longrightarrow> x \<in> set (idle pool b)"
  using idle_try_pop [of closed a pool b] by (auto split: if_splits dest!: in_set_tl set_dropWhileD)

lemma pop_takes:
  assumes "senders_inv owner h pool cs" "try_pop closed a pool = (Some s, pool')"
  shows "owner s = a" "s \<notin> set (idle pool' b)" "j < length cs \<Longrightarrow> conn_sender (conn_phase (cs ! j)) \<noteq> Some s"
proof -
  have "conn_pool.sound owner pool" using assms(1) by (simp add: senders_inv_def)
  from conn_pool.sound_get(2) [OF this assms(2)] show "owner s = a" "s \<notin> set (idle pool' b)" by auto
  have "s \<in> set (idle pool a)" using conn_pool.get_some [OF assms(2)] by auto
  with assms(1) show "conn_sender (conn_phase (cs ! j)) \<noteq> Some s" if "j < length cs"
    using that unfolding senders_inv_def holds_alone_def by blast
qed

lemma senders_inv_pop:
  assumes "senders_inv owner h pool cs" "refs_inv h cs" "i < length cs" "conn_heap_step ph0 ph1 h h'"
    and pop: "try_pop closed a pool = (conn_sender ph, pool')" and "conn_backend ph = Some b" "addr (h' ! b) = a"
  shows "senders_inv owner h' pool' (set_phase i ph cs)"
proof (rule senders_inv_step [OF assms(1-4)])
  have "conn_pool.sound owner pool" using assms(1) by (simp add: senders_inv_def)
  then show "conn_pool.sound owner pool'" by (rule conn_pool.sound_get(1) [OF _ pop])
  show "holds_alone owner h' pool' cs i ph s" if "conn_sender ph = Some s" for s
    using that assms(6,7) pop_takes [OF assms(1), of closed a s pool'] pop by (auto simp: holds_alone_def)
qed (use pop_shrinks [OF pop] in auto)

lemma senders_inv_push:
  assumes "senders_inv owner h pool cs" "refs_inv h cs" "i < length cs" "conn_heap_step ph0 ph1 h h'"
    and "conn_sender (conn_phase (cs ! i)) = Some s" "conn_backend (conn_phase (cs ! i)) = Some b" "conn_sender ph = None"
  shows "senders_inv owner h' (push closed (addr (h ! b)) s pool) (set_phase i ph cs)"
proof (rule senders_inv_step [OF assms(1-4)])
  have sound: "conn_pool.sound owner pool" using assms(1) by (simp add: senders_inv_def)
  have "owner s = addr (h ! b)" "\<forall>a. s \<notin> set (idle pool a)"
    using assms(1,3,5,6) unfolding senders_inv_def holds_alone_def by (metis option.inject)+
  then show "conn_pool.sound owner (push closed (addr (h ! b)) s pool)" by (intro conn_pool.sound_put [OF sound]) auto
qed (use assms(5,7) in \<open>auto simp: idle_push split: if_splits\<close>)

section \<open>One operation of a request beside all others\<close>

lemma advance_same_backend:
  assumes "advance D env req cl p c = Ret (p', c')" "sender_of p' = Some s"
  shows "backend_of p' = backend_of p"
  using assms by (cases p) (auto simp: outcome_simps Let_def split: if_splits option.splits sum.splits prod.splits list.splits)

lemma advance_conn_heap:
  assumes "advance D env req cl p c = Ret (p', c')" "refs_inv (bheap c) cs" "i < length cs"
    and "conn_phase (cs ! i) = Serving req p" "shared_ok c"
  shows "conn_heap_step (conn_phase (cs ! i)) (Serving req p') (bheap c) (bheap c')"
    and "refs_inv (bheap c') (set_phase i (Serving req p') cs)"
proof -
  have r: "refers_to (bheap c) p"
    using assms(2-4) by (auto simp: refs_inv_def list_all_length refers_to_def)
  have ok: "routing_ok (bheap c) (routing_table c)" using assms(5) by (simp add: shared_ok_def)
  note h = advance_heap [OF assms(1) r ok]
  show "conn_heap_step (conn_phase (cs ! i)) (Serving req p') (bheap c) (bheap c')"
    using h(1) assms(4) by (simp add: heap_step_def conn_heap_step_def)
  show "refs_inv (bheap c') (set_phase i (Serving req p') cs)"
    using h assms(2,3) by (intro refs_inv_step) (auto simp: heap_step_def refers_to_def)
qed

lemma advance_senders:
  assumes "advance D env req cl p c = Ret (p', c')" "refs_inv (bheap c) cs" "i < length cs"
    and ph: "conn_phase (cs ! i) = Serving req p" and "shared_ok c" "senders_inv owner (bheap c) (connection_pool c) cs"
    and fresh: "\<And>b s. p = Handshaking b \<Longrightarrow> handshake env = Some s \<Longrightarrow> fresh_sender owner (bheap c) (connection_pool c) cs b s"
  shows "senders_inv owner (bheap c') (connection_pool c') (set_phase i (Serving req p') cs)"
proof -
  note hs = advance_conn_heap(1) [OF assms(1-5)]
  have sound: "conn_pool.sound owner (connection_pool c)" using assms(6) by (simp add: senders_inv_def)
  have mine: "holds_alone owner (bheap c) (connection_pool c) cs i (Serving req p) s" if "sender_of p = Some s" for s
    using assms(6) that ph assms(3) by (auto simp: senders_inv_def)
  have keep_addr: "addr (bheap c' ! b) = addr (bheap c ! b)" if "backend_of p = Some b" for b
    using hs refs_inv_backend [OF assms(2) nth_mem [OF assms(3)]] ph that by (auto simp: conn_heap_step_def)
  note step = senders_inv_step [OF assms(6,2,3) hs]
  consider (keep) "connection_pool c' = connection_pool c" "sender_of p' = None \<or> sender_of p' = sender_of p"
    | (shake) b s where "connection_pool c' = connection_pool c" "p = Handshaking b" "handshake env = Some s" "sender_of p' = Some s"
    | (pop) b where "p = Popping b" "backend_of p' = Some b"
        "try_pop (pop_closed env) (addr (bheap c ! b)) (connection_pool c) = (sender_of p', connection_pool c')"
    | (push) b s m res where "p = Pushing b s m res" "sender_of p' = None"
        "connection_pool c' = push (push_closed env) (addr (bheap c ! b)) s (connection_pool c)"
    using advance_pool [OF assms(1)] by (cases "sender_of p'"; cases "handshake env") auto
  then show ?thesis
  proof cases
    case keep
    show ?thesis
    proof (rule step)
      show "holds_alone owner (bheap c') (connection_pool c') cs i (Serving req p') s" if "conn_sender (Serving req p') = Some s" for s
        using that keep mine [of s] keep_addr advance_same_backend [OF assms(1), of s] by (auto simp: holds_alone_def)
    qed (use sound keep(1) in auto)
  next
    case shake
    then have "backend_of p' = Some b" using advance_same_backend [OF assms(1)] by auto
    with fresh shake keep_addr [of b] sound show ?thesis
      by (intro step) (auto simp: fresh_sender_def holds_alone_def list_all_length)
  next
    case pop
    then show ?thesis using keep_addr [of b] by (intro senders_inv_pop [OF assms(6,2,3) hs]) auto
  next
    case push
    then show ?thesis using ph senders_inv_push [OF assms(6,2,3) hs] by simp
  qed
qed

section \<open>Properties\<close>

text \<open>
  The accept loop: it spawns a task for each connection accepted before the first event of the shutdown
  channel, in order and in spite of accept errors, and then ends; a signal handler that could not be
  installed closes the channel, which ends the loop just as a signal does.
\<close>

lemma accept_loop_until_shutdown:
  assumes "ShutdownSignal \<notin> set evs"
  shows "start_server (Inr ()) (evs @ select_shutdown (shutdown_recv (ctrl_c_task ok)) # later)
    = Inr (concat (map (\<lambda>ev. case ev of Accepted a \<Rightarrow> [a] | _ \<Rightarrow> []) evs), True)"
  using assms
  by (induction evs rule: accept_loop.induct)
    (auto simp: start_server_def select_shutdown_def split: recv_result.splits prod.splits)

end
