(* ===== verification/System.thy ===== *)
theory System
  imports Startup Listener
begin

text \<open>
  The program as a whole: the step relation of the running proxy. Connections are accepted, negotiate TLS,
  carry requests and end; the requests of all connections interleave, operation by operation, with each
  other and with health probes, reloads, route events, plugin updates and the sweeper; a task can be
  dropped at any \<open>await\<close>. The invariant counts guards and connections exactly and says who owns which
  upstream connection. (The atomic operations of one component are split further in \<open>Ewma\<close>,
  \<open>Breaker_Race\<close> and \<open>Ban_Manager\<close>.)
\<close>

section \<open>The running system\<close>

record ('c, 'x, 's) system =
  ctx :: "('c, 'x, 's) ServerContext"
  conns :: "'c Conn list"
  listening :: bool

definition system_start :: "('c, 'x, 's) ServerContext \<Rightarrow> ('c, 'x, 's) system" where
  "system_start c0 = \<lparr>ctx = c0, conns = [], listening = True\<rparr>"

definition move :: "nat \<Rightarrow> 'c conn_phase \<Rightarrow> ('c, 'x, 's) ServerContext \<Rightarrow> ('c, 'x, 's) system \<Rightarrow> ('c, 'x, 's) system" where
  "move i ph c S = S\<lparr>ctx := c, conns := set_phase i ph (conns S)\<rparr>"

text \<open>
  \<open>tls\<close> tells whether there is an acceptor; \<open>owner\<close> is the address an upstream connection leads to. Each
  operation of a request meets surroundings of its own, with round-trip times that a \<open>Duration\<close> can
  hold; a handshake with a backend yields a connection that did not exist before.
\<close>

inductive sys_step ::
  "('w, 's, 'x) Deps \<Rightarrow> (string \<Rightarrow> SocketAddr option) \<Rightarrow> bool \<Rightarrow> ('c \<Rightarrow> SocketAddr)
     \<Rightarrow> ('c, 'x, 's) system \<Rightarrow> ('c, 'x, 's) system \<Rightarrow> bool"
  for D parse_addr tls owner where
  accept: "listening S \<Longrightarrow> sys_step D parse_addr tls owner S (S\<lparr>conns := conns S @ [conn_new a]\<rparr>)"
| accept_error: "listening S \<Longrightarrow> sys_step D parse_addr tls owner S S"
| shutdown: "listening S \<Longrightarrow> sys_step D parse_addr tls owner S (S\<lparr>listening := False\<rparr>)"
| open_conn: "i < length (conns S) \<Longrightarrow> conn_phase (conns S ! i) = Spawned \<Longrightarrow>
    sys_step D parse_addr tls owner S (move i (conn_start tls) (conn_open (ctx S)) S)"
| negotiated: "i < length (conns S) \<Longrightarrow> conn_phase (conns S ! i) = TlsAccepting \<Longrightarrow>
    sys_step D parse_addr tls owner S (move i (tls_accepted r) (leave (tls_accepted r) (ctx S)) S)"
| incoming: "i < length (conns S) \<Longrightarrow> conn_phase (conns S ! i) = Waiting \<Longrightarrow>
    sys_step D parse_addr tls owner S (move i (Serving req Arrived) (ctx S) S)"
| advancing: "i < length (conns S) \<Longrightarrow> conn_phase (conns S ! i) = Serving req p \<Longrightarrow> env_ok env \<Longrightarrow>
    advance D env req (peer (conns S ! i)) p (ctx S) = Ret (p', c') \<Longrightarrow>
    (\<And>b s. p = Handshaking b \<Longrightarrow> handshake env = Some s \<Longrightarrow>
       fresh_sender owner (bheap (ctx S)) (connection_pool (ctx S)) (conns S) b s) \<Longrightarrow>
    sys_step D parse_addr tls owner S (move i (Serving req p') c' S)"
| replied: "i < length (conns S) \<Longrightarrow> conn_phase (conns S ! i) = Serving req (Finished r) \<Longrightarrow>
    sys_step D parse_addr tls owner S (move i (after_reply r) (leave (after_reply r) (ctx S)) S)"
| dropped: "i < length (conns S) \<Longrightarrow> droppable (conn_phase (conns S ! i)) \<Longrightarrow>
    sys_step D parse_addr tls owner S (move i Ended (conn_close (conn_cancel (conn_phase (conns S ! i)) (ctx S))) S)"
| abandoned: "i < length (conns S) \<Longrightarrow> conn_phase (conns S ! i) = Serving req (Limiting cost) \<Longrightarrow>
    sys_step D parse_addr tls owner S (move i Ended (conn_close (abandon_check D e (peer (conns S ! i)) cost (ctx S))) S)"
| health: "b < length (bheap (ctx S)) \<Longrightarrow>
    sys_step D parse_addr tls owner S (S\<lparr>ctx := (ctx S)\<lparr>bheap := probe_backend probe (bheap (ctx S)) b\<rparr>\<rparr>)"
| admin: "sys_step D parse_addr tls owner S (S\<lparr>ctx := snd (admin_service request (ctx S))\<rparr>)"
| route: "sys_step D parse_addr tls owner S (S\<lparr>ctx := k8s_event parse_addr (ctx S) event\<rparr>)"
| sweeping: "limiter (ban_manager (ctx S)) \<noteq> None \<Longrightarrow>
    sys_step D parse_addr tls owner S (S\<lparr>ctx := (ctx S)\<lparr>ban_manager := retain_entry (xdp D) now (ban_manager (ctx S)) ip\<rparr>\<rparr>)"

inductive sys_reachable ::
  "('w, 's, 'x) Deps \<Rightarrow> (string \<Rightarrow> SocketAddr option) \<Rightarrow> bool \<Rightarrow> ('c \<Rightarrow> SocketAddr)
     \<Rightarrow> ('c, 'x, 's) system \<Rightarrow> ('c, 'x, 's) system \<Rightarrow> bool"
  for D parse_addr tls owner S0 where
  start: "sys_reachable D parse_addr tls owner S0 S0"
| step: "sys_reachable D parse_addr tls owner S0 S \<Longrightarrow> sys_step D parse_addr tls owner S S' \<Longrightarrow>
    sys_reachable D parse_addr tls owner S0 S'"

section \<open>Invariant\<close>

text \<open>Every address the kernel blocks has an expiry on record, or a task that is about to write one.\<close>

definition under_ban :: "IpAddr \<Rightarrow> 'c Conn list \<Rightarrow> bool" where
  "under_ban ip cs \<longleftrightarrow> (\<exists>c \<in> set cs. conn_banning (conn_phase c) \<and> addr_ip (peer c) = ip)"

definition tracked :: "'x XdpRateLimiter \<Rightarrow> 'x BanManager \<Rightarrow> 'c Conn list \<Rightarrow> bool" where
  "tracked L bm cs \<longleftrightarrow> (\<forall>ip. kernel_blocks L bm ip \<longrightarrow> banned_ips bm ip \<noteq> None \<or> under_ban ip cs)"

definition ctx_inv :: "('w, 's, 'x) Deps \<Rightarrow> ('c \<Rightarrow> SocketAddr) \<Rightarrow> ('c, 'x, 's) ServerContext \<Rightarrow> 'c Conn list \<Rightarrow> bool" where
  "ctx_inv D owner c cs \<longleftrightarrow> shared_ok c \<and> tracked (xdp D) (ban_manager c) cs \<and> refs_inv (bheap c) cs \<and> guards_inv (bheap c) cs
     \<and> senders_inv owner (bheap c) (connection_pool c) cs"

definition sys_inv :: "('w, 's, 'x) Deps \<Rightarrow> ('c \<Rightarrow> SocketAddr) \<Rightarrow> ('c, 'x, 's) system \<Rightarrow> bool" where
  "sys_inv D owner S \<longleftrightarrow> ctx_inv D owner (ctx S) (conns S) \<and> active_connections (ctx S) = of_nat (live_conns (conns S))"

lemma tracked_mono: "tracked L bm cs \<Longrightarrow> (\<And>ip. under_ban ip cs \<Longrightarrow> under_ban ip cs') \<Longrightarrow> tracked L bm cs'"
  by (auto simp: tracked_def)

lemma tracked_record:
  assumes "tracked L bm cs" "\<And>j. j \<noteq> ip \<Longrightarrow> under_ban j cs \<Longrightarrow> under_ban j cs'"
  shows "tracked L (ban_record now ip d bm) cs'"
  using assms by (auto simp: tracked_def ban_record_def kernel_blocks_def)

lemma under_ban_move:
  assumes "under_ban ip cs" "i < length cs" "\<not> conn_banning (conn_phase (cs ! i)) \<or> addr_ip (peer (cs ! i)) \<noteq> ip"
  shows "under_ban ip (set_phase i ph cs)"
proof -
  obtain k where k: "k < length cs" "conn_banning (conn_phase (cs ! k))" "addr_ip (peer (cs ! k)) = ip"
    using assms(1) by (auto simp: under_ban_def in_set_conv_nth)
  then have "k \<noteq> i" using assms(3) by auto
  with k have "set_phase i ph cs ! k = cs ! k" "k < length (set_phase i ph cs)" by (simp_all add: set_phase_def)
  with k show ?thesis unfolding under_ban_def by (metis nth_mem)
qed

lemma under_ban_here:
  "i < length cs \<Longrightarrow> conn_banning ph \<Longrightarrow> under_ban (addr_ip (peer (cs ! i))) (set_phase i ph cs)"
  by (auto simp: under_ban_def set_phase_def set_update_memI intro!: bexI [of _ "(cs ! i)\<lparr>conn_phase := ph\<rparr>"])

lemma tracked_move:
  "tracked L bm cs \<Longrightarrow> i < length cs \<Longrightarrow> \<not> conn_banning (conn_phase (cs ! i)) \<Longrightarrow> tracked L bm (set_phase i ph cs)"
  by (erule tracked_mono) (simp add: under_ban_move)

context xdp_limiter
begin

lemma block_leaves: "ban_block L ip bm = (blocked, bm') \<Longrightarrow> kernel_blocks L bm' j \<Longrightarrow> kernel_blocks L bm j \<or> j = ip \<and> blocked"
  using block_le [of _ ip j] block_err [of _ ip _ _ j]
  by (auto simp: ban_block_def kernel_blocks_def split: option.splits prod.splits sum.splits)

lemma tracked_block:
  assumes "tracked L bm cs" "ban_block L ip bm = (blocked, bm')"
    and "\<And>j. under_ban j cs \<Longrightarrow> under_ban j cs'" "blocked \<Longrightarrow> under_ban ip cs'"
  shows "tracked L bm' cs'"
proof -
  have "banned_ips bm' = banned_ips bm"
    using assms(2) by (auto simp: ban_block_def split: option.splits prod.splits sum.splits)
  with assms block_leaves [OF assms(2)] show ?thesis unfolding tracked_def by metis
qed

lemma tracked_retain:
  assumes "tracked L bm cs"
  shows "tracked L (retain_entry L now bm ip) cs"
  unfolding tracked_def
proof (intro allI impI)
  fix j
  assume b: "kernel_blocks L (retain_entry L now bm ip) j"
  then have j: "banned_ips bm j \<noteq> None \<or> under_ban j cs" using retain_blocks_le assms by (auto simp: tracked_def)
  show "banned_ips (retain_entry L now bm ip) j \<noteq> None \<or> under_ban j cs"
  proof (cases "j = ip")
    case True
    then show ?thesis using b j retain_untracks_unblocked by blast
  next
    case False
    then show ?thesis using j by (simp add: retain_other)
  qed
qed

end

section \<open>Preservation\<close>

lemma conn_count_simps [simp]:
  "active_connections (conn_open c) = active_connections c + 1" "active_connections (conn_close c) = active_connections c - 1"
  by (simp_all add: conn_open_def conn_close_def)

lemma conn_count_frame [simp]:
  fixes c :: "('c, 'x, 's) ServerContext"
  shows "ctx_inv D owner (conn_open c) cs = ctx_inv D owner c cs" "ctx_inv D owner (conn_close c) cs = ctx_inv D owner c cs"
    "ctx_inv D owner (leave ph c) cs = ctx_inv D owner c cs"
  by (simp_all add: ctx_inv_def shared_ok_def conn_open_def conn_close_def leave_def)

text \<open>The count of connections follows the phases.\<close>

lemma live_move:
  assumes "active_connections c = of_nat (live_conns cs)" "i < length cs"
    and "active_connections c' + of_bool (counted (conn_phase (cs ! i))) = active_connections c + of_bool (counted ph)"
  shows "active_connections c' = of_nat (live_conns (set_phase i ph cs))"
  using assms(1,3) live_set_phase [OF assms(2)] by (rule counter_follows)

text \<open>A connection that moves between phases without a backend, and one whose request is dropped.\<close>

lemma conn_heap_step_refl: "conn_guard ph = conn_guard ph' \<Longrightarrow> conn_heap_step ph ph' h h"
  by (simp add: conn_heap_step_def)

lemma ctx_inv_idle:
  assumes "ctx_inv D owner c cs" "i < length cs" "conn_guard (conn_phase (cs ! i)) = None" "\<not> conn_banning (conn_phase (cs ! i))"
    and "conn_guard ph = None" "conn_candidates ph = []" "conn_unread ph = []" "conn_sender ph = None"
  shows "ctx_inv D owner c (set_phase i ph cs)"
proof -
  have h: "conn_heap_step (conn_phase (cs ! i)) ph (bheap c) (bheap c)" using assms(3,5) by (intro conn_heap_step_refl) simp
  have "tracked (xdp D) (ban_manager c) (set_phase i ph cs)"
    using assms(1,2,4) by (simp add: ctx_inv_def tracked_move)
  then show ?thesis
    using assms guards_inv_step [OF _ assms(2) h] refs_inv_step [of "bheap c" cs i "bheap c" ph]
      senders_inv_drop [OF _ _ assms(2) h assms(8)]
    by (simp add: ctx_inv_def)
qed

lemma guard_of_backend: "guard_of p = Some b \<Longrightarrow> backend_of p = Some b"
  by (cases p) (simp_all add: guard_of_def)

lemma cancel_heap:
  assumes "refs_inv (bheap c) cs" "i < length cs"
  shows "conn_heap_step (conn_phase (cs ! i)) Ended (bheap c) (bheap (conn_cancel (conn_phase (cs ! i)) c))"
proof (cases "conn_guard (conn_phase (cs ! i))")
  case None
  then have "conn_cancel (conn_phase (cs ! i)) c = c" by (cases "conn_phase (cs ! i)") (simp_all add: cancel_def)
  with None show ?thesis by (simp add: conn_heap_step_def)
next
  case (Some b)
  then obtain req p where p: "conn_phase (cs ! i) = Serving req p" "guard_of p = Some b"
    by (cases "conn_phase (cs ! i)") simp_all
  then show ?thesis by (auto simp: cancel_def conn_heap_step_def nth_modify)
qed

lemma cancel_frame [frame_simps]:
  fixes c :: "('c, 'x, 's) ServerContext"
  shows "ban_manager (conn_cancel ph c) = ban_manager c" "connection_pool (conn_cancel ph c) = connection_pool c"
    "active_connections (conn_cancel ph c) = active_connections c" "shared_ok c \<Longrightarrow> shared_ok (conn_cancel ph c)"
  by (cases ph; simp add: cancel_def shared_ok_def routing_ok_modify split: option.split)+

lemma abandon_frame [frame_simps]:
  fixes c :: "('c, 'x, 's) ServerContext"
  shows "bheap (abandon_check D e cl cost c) = bheap c" "ban_manager (abandon_check D e cl cost c) = ban_manager c"
    "active_connections (abandon_check D e cl cost c) = active_connections c"
    "wasm_poisoned (abandon_check D e cl cost c) = wasm_poisoned c"
    "ctx_inv D owner (abandon_check D e cl cost c) cs = ctx_inv D owner c cs"
  by (simp_all add: abandon_check_def ctx_inv_def shared_ok_def)

lemma conn_frame [frame_simps]:
  fixes c :: "('c, 'x, 's) ServerContext"
  shows "ban_manager (conn_open c) = ban_manager c" "ban_manager (conn_close c) = ban_manager c" "ban_manager (leave ph c) = ban_manager c"
    "rate_store (conn_open c) = rate_store c" "rate_store (conn_close c) = rate_store c" "rate_store (leave ph c) = rate_store c"
    "wasm_poisoned (conn_open c) = wasm_poisoned c" "wasm_poisoned (conn_close c) = wasm_poisoned c"
    "wasm_poisoned (leave ph c) = wasm_poisoned c" "bheap (conn_open c) = bheap c" "bheap (conn_close c) = bheap c"
    "bheap (leave ph c) = bheap c" "rate_store (conn_cancel ph c) = rate_store c" "wasm_poisoned (conn_cancel ph c) = wasm_poisoned c"
  by (simp_all add: conn_open_def conn_close_def leave_def) (cases ph; simp add: cancel_def split: option.split)+

lemma control_frame [frame_simps]:
  fixes c :: "('c, 'x, 's) ServerContext"
  shows "ban_manager (snd (admin_service request c)) = ban_manager c" "rate_store (snd (admin_service request c)) = rate_store c"
    "wasm_poisoned (snd (admin_service request c)) = wasm_poisoned c" "ban_manager (k8s_event parse_addr c ev) = ban_manager c"
    "rate_store (k8s_event parse_addr c ev) = rate_store c" "wasm_poisoned (k8s_event parse_addr c ev) = wasm_poisoned c"
  by (cases request; simp add: reload_config_def update_wasm_plugin_def install_backends_def split_beta Let_def)+
    (simp_all add: k8s_event_def install_backends_def split_beta Let_def split: sum.split)

lemma ctx_inv_cancel:
  assumes "ctx_inv D owner c cs" "i < length cs" "\<not> conn_banning (conn_phase (cs ! i))"
  shows "ctx_inv D owner (conn_cancel (conn_phase (cs ! i)) c) (set_phase i Ended cs)"
proof -
  have "tracked (xdp D) (ban_manager c) (set_phase i Ended cs)"
    using assms by (simp add: ctx_inv_def tracked_move)
  moreover
  have r: "refs_inv (bheap c) cs" using assms(1) by (simp add: ctx_inv_def)
  note h = cancel_heap [OF r assms(2)]
  have "length (bheap (conn_cancel (conn_phase (cs ! i)) c)) = length (bheap c)" using h by (simp add: conn_heap_step_def)
  ultimately show ?thesis
    using assms h guards_inv_step [OF _ assms(2) h] refs_inv_step [OF r assms(2), of _ Ended] senders_inv_drop [OF _ r assms(2) h]
    by (simp add: ctx_inv_def cancel_frame)
qed

lemma advance_tracked:
  assumes "xdp_limiter (xdp D) covers" "tracked (xdp D) (ban_manager c) cs" "i < length cs" "conn_phase (cs ! i) = Serving req p"
    and "advance D env req (peer (cs ! i)) p c = Ret (p', c')"
  shows "tracked (xdp D) (ban_manager c') (set_phase i (Serving req p') cs)"
  using assms(5)
proof (cases rule: advance_bans)
  case 1
  with assms(2-4) show ?thesis by (auto intro!: tracked_mono [OF assms(2)] under_ban_move)
next
  case 2
  with assms(3,4) show ?thesis
    by (intro xdp_limiter.tracked_block [OF assms(1,2) 2(1)]) (auto intro!: under_ban_move under_ban_here)
next
  case 3
  with assms(3,4) show ?thesis by (auto intro!: tracked_record [OF assms(2)] under_ban_move)
qed

lemma ctx_inv_advance:
  assumes "xdp_limiter (xdp D) covers" "ctx_inv D owner c cs" "i < length cs" "conn_phase (cs ! i) = Serving req p"
    and env: "env_ok env" and a: "advance D env req cl p c = Ret (p', c')" and cl: "cl = peer (cs ! i)"
    and "\<And>b s. p = Handshaking b \<Longrightarrow> handshake env = Some s \<Longrightarrow> fresh_sender owner (bheap c) (connection_pool c) cs b s"
  shows "ctx_inv D owner c' (set_phase i (Serving req p') cs)" and "active_connections c' = active_connections c"
proof -
  have inv: "shared_ok c" "refs_inv (bheap c) cs" "guards_inv (bheap c) cs" "senders_inv owner (bheap c) (connection_pool c) cs"
    using assms(2) by (simp_all add: ctx_inv_def)
  note h = advance_conn_heap [OF a inv(2) assms(3,4) inv(1)] and ok = advance_ok [OF a env inv(1)]
  have "tracked (xdp D) (ban_manager c') (set_phase i (Serving req p') cs)"
    using advance_tracked [OF assms(1) _ assms(3,4) a [unfolded cl]] assms(2) by (simp add: ctx_inv_def)
  with h ok guards_inv_step [OF inv(3) assms(3) h(1)] advance_senders [OF a inv(2) assms(3,4) inv(1,4) assms(8)]
  show "ctx_inv D owner c' (set_phase i (Serving req p') cs)" by (simp add: ctx_inv_def)
  show "active_connections c' = active_connections c" by (rule ok(2))
qed

lemma refs_inv_mono: "refs_inv h cs \<Longrightarrow> length h \<le> length h' \<Longrightarrow> refs_inv h' cs"
  unfolding refs_inv_def by (erule list.pred_mono_strong) (meson order_less_le_trans)

text \<open>The heap may grow by idle backends, and change what no request owns.\<close>

lemma ctx_inv_heap:
  assumes inv: "ctx_inv D owner c cs" and "shared_ok c'" "tracked (xdp D) (ban_manager c') cs" "connection_pool c' = connection_pool c"
    and len: "length (bheap c) \<le> length (bheap c')"
    and old: "\<And>b. b < length (bheap c) \<Longrightarrow> addr (bheap c' ! b) = addr (bheap c ! b)
        \<and> active_requests (b_ewma (bheap c' ! b)) = active_requests (b_ewma (bheap c ! b))"
    and new: "\<And>b. length (bheap c) \<le> b \<Longrightarrow> b < length (bheap c') \<Longrightarrow> active_requests (b_ewma (bheap c' ! b)) = 0"
  shows "ctx_inv D owner c' cs"
proof -
  have refs: "\<And>x b. x \<in> set cs \<Longrightarrow> conn_backend (conn_phase x) = Some b \<Longrightarrow> b < length (bheap c)"
    using inv refs_inv_backend by (auto simp: ctx_inv_def)
  have none: "guards_on b cs = 0" if "length (bheap c) \<le> b" for b
  proof -
    have "conn_guard (conn_phase x) \<noteq> Some b" if "x \<in> set cs" for x
    proof
      assume "conn_guard (conn_phase x) = Some b"
      then have "conn_backend (conn_phase x) = Some b" by (cases "conn_phase x") (simp_all add: guard_of_backend)
      with refs [OF that this] \<open>length (bheap c) \<le> b\<close> show False by simp
    qed
    then show ?thesis by (auto simp: guards_on_def filter_empty_conv)
  qed
  have "refs_inv (bheap c') cs" using inv len by (auto simp: ctx_inv_def intro: refs_inv_mono)
  moreover have "guards_inv (bheap c') cs"
    unfolding guards_inv_def
  proof (intro allI impI)
    fix b assume b: "b < length (bheap c')"
    show "active_requests (b_ewma (bheap c' ! b)) = of_nat (guards_on b cs)"
      using inv old [of b] new [OF _ b] none [of b] by (cases "b < length (bheap c)") (simp_all add: ctx_inv_def guards_inv_def)
  qed
  moreover have "senders_inv owner (bheap c') (connection_pool c') cs"
    unfolding senders_inv_def assms(4)
  proof (intro conjI allI impI)
    show "conn_pool.sound owner (connection_pool c)" using inv by (simp add: ctx_inv_def senders_inv_def)
    fix i s assume i: "i < length cs" "conn_sender (conn_phase (cs ! i)) = Some s"
    have o: "holds_alone owner (bheap c) (connection_pool c) cs i (conn_phase (cs ! i)) s"
      using inv i by (simp add: ctx_inv_def senders_inv_def)
    then obtain b where b: "conn_backend (conn_phase (cs ! i)) = Some b" "owner s = addr (bheap c ! b)"
      by (auto simp: holds_alone_def)
    then have "addr (bheap c' ! b) = addr (bheap c ! b)" using old refs i(1) by (metis nth_mem)
    with o b show "holds_alone owner (bheap c') (connection_pool c) cs i (conn_phase (cs ! i)) s"
      by (auto simp: holds_alone_def)
  qed
  ultimately show ?thesis using assms(2,3) by (simp add: ctx_inv_def)
qed

lemma install_backends_ctx:
  fixes c :: "('c, 'x, 's) ServerContext"
  shows "ban_manager (install_backends bs c) = ban_manager c" "connection_pool (install_backends bs c) = connection_pool c"
  by (simp_all add: install_backends_def split_beta)

lemma install_backends_nth:
  assumes "length (bheap c) \<le> b" "b < length (bheap (install_backends bs c))"
  shows "bheap (install_backends bs c) ! b \<in> set bs"
  using assms by (auto simp: install_backends_def alloc_def nth_append)

lemma ctx_inv_install:
  assumes "ctx_inv D owner c cs" "bs \<noteq> []" "list_all backend_ok bs" "list_all (\<lambda>b. active_requests (b_ewma b) = 0) bs"
  shows "ctx_inv D owner (install_backends bs c) cs"
proof (rule ctx_inv_heap [OF assms(1)])
  show "shared_ok (install_backends bs c)" using assms by (intro install_backends_ok) (simp_all add: ctx_inv_def)
  show "active_requests (b_ewma (bheap (install_backends bs c) ! b)) = 0"
    if "length (bheap c) \<le> b" "b < length (bheap (install_backends bs c))" for b
    using install_backends_nth [OF that] assms(4) by (simp add: list_all_iff)
qed (use assms(1) in \<open>simp_all add: ctx_inv_def install_backends_ctx install_backends_table\<close>)

lemma fresh_backends_idle:
  "active_requests (b_ewma (backend_new i a)) = 0" "active_requests (b_ewma (backend_of_map parse_addr m)) = 0"
  by (simp_all add: backend_new_def backend_of_map_def with_models_def peak_ewma_new_def)

lemma ctx_inv_admin:
  fixes c :: "('c, 'x, 's) ServerContext"
  assumes "ctx_inv D owner c cs"
  shows "ctx_inv D owner (snd (admin_service request c)) cs"
    and "active_connections (snd (admin_service request c)) = active_connections c"
proof -
  show "ctx_inv D owner (snd (admin_service request c)) cs"
  proof (cases request)
    case (ReloadConfigRequest path)
    with ctx_inv_install [OF assms, of "[backend_new 99 (SocketAddr (V4 127 0 0 1) 9099)]"] show ?thesis
      by (simp add: reload_config_def fresh_backends_idle)
  next
    case (UpdateWasmRequest bin)
    with assms show ?thesis
      by (auto simp: update_wasm_plugin_def Let_def ctx_inv_def shared_ok_def)
  qed (use assms in simp)
  show "active_connections (snd (admin_service request c)) = active_connections c"
    by (cases request) (simp_all add: reload_config_def update_wasm_plugin_def Let_def)
qed

lemma ctx_inv_route:
  fixes c :: "('c, 'x, 's) ServerContext"
  assumes "ctx_inv D owner c cs"
  shows "ctx_inv D owner (k8s_event parse_addr c ev) cs" and "active_connections (k8s_event parse_addr c ev) = active_connections c"
  using ctx_inv_install [OF assms, of "map (backend_of_map parse_addr) _"] assms
  by (auto simp: k8s_event_def Let_def list_all_iff fresh_backends_idle split: sum.split)

lemma ctx_inv_probe:
  assumes "ctx_inv D owner c cs" "b < length (bheap c)"
  shows "ctx_inv D owner (c\<lparr>bheap := probe_backend probe (bheap c) b\<rparr>) cs"
proof (rule ctx_inv_heap [OF assms(1)])
  note p = probe_backend_eq [OF assms(2), of probe]
  show "shared_ok (c\<lparr>bheap := probe_backend probe (bheap c) b\<rparr>)"
    using assms by (auto simp: p ctx_inv_def shared_ok_def routing_ok_def list_all_length nth_list_update)
qed (use assms probe_backend_eq [OF assms(2), of probe] in \<open>auto simp: ctx_inv_def nth_list_update set_healthy_def\<close>)

lemma ctx_inv_accept:
  assumes "ctx_inv D owner c cs"
  shows "ctx_inv D owner c (cs @ [conn_new a])" and "live_conns (cs @ [conn_new a]) = live_conns cs"
proof -
  have "guards_on b (cs @ [conn_new a]) = guards_on b cs" for b by (simp add: guards_on_def conn_new_def)
  moreover have "tracked (xdp D) (ban_manager c) (cs @ [conn_new a])"
    using assms by (auto simp: ctx_inv_def under_ban_def intro: tracked_mono)
  moreover have "senders_inv owner (bheap c) (connection_pool c) (cs @ [conn_new a])"
    using assms by (auto simp: ctx_inv_def senders_inv_def holds_alone_def conn_new_def nth_append split: if_splits)
  ultimately show "ctx_inv D owner c (cs @ [conn_new a])"
    using assms by (simp add: ctx_inv_def refs_inv_def guards_inv_def conn_new_def)
  show "live_conns (cs @ [conn_new a]) = live_conns cs" by (simp add: live_conns_def conn_new_def)
qed

lemma conn_start_phase:
  "counted (conn_start tls)" "conn_guard (conn_start tls) = None" "conn_candidates (conn_start tls) = []"
  "conn_unread (conn_start tls) = []"
  "conn_sender (conn_start tls) = None"
  by (simp_all add: conn_start_def)

lemma idle_phases:
  "conn_guard (tls_accepted r) = None" "conn_candidates (tls_accepted r) = []" "conn_unread (tls_accepted r) = []"
  "conn_sender (tls_accepted r) = None"
  "conn_guard (after_reply q) = None" "conn_candidates (after_reply q) = []" "conn_unread (after_reply q) = []"
  "conn_sender (after_reply q) = None"
  by (simp_all add: tls_accepted_def after_reply_def split: sum.split)

lemma leave_count: "active_connections (leave ph c) + 1 = active_connections c + of_bool (counted ph)"
  by (simp add: leave_def)

lemma droppable_counted: "droppable ph \<Longrightarrow> counted ph" "droppable ph \<Longrightarrow> \<not> conn_banning ph"
proof -
  have "awaits p \<Longrightarrow> \<not> banning p" for p :: "'a phase" by (cases p) simp_all
  then show "droppable ph \<Longrightarrow> counted ph" "droppable ph \<Longrightarrow> \<not> conn_banning ph" by (cases ph; simp)+
qed

text \<open>A connection moves between phases without a backend.\<close>

lemma sys_inv_idle:
  assumes "sys_inv D owner S" "i < length (conns S)" "conn_guard (conn_phase (conns S ! i)) = None"
    and "\<not> conn_banning (conn_phase (conns S ! i))" "conn_guard ph = None" "conn_candidates ph = []" "conn_unread ph = []"
    and "conn_sender ph = None" "\<And>cs. ctx_inv D owner c cs = ctx_inv D owner (ctx S) cs"
    and "active_connections c + of_bool (counted (conn_phase (conns S ! i))) = active_connections (ctx S) + of_bool (counted ph)"
  shows "sys_inv D owner (move i ph c S)"
  using assms ctx_inv_idle [of D owner "ctx S" "conns S" i ph] live_move [of "ctx S" "conns S" i c ph]
  by (simp add: sys_inv_def move_def)

lemma sys_inv_step:
  assumes "xdp_limiter (xdp D) covers" "sys_step D parse_addr tls owner S S'" "sys_inv D owner S"
  shows "sys_inv D owner S'"
  using assms(2)
proof (cases rule: sys_step.cases)
  case (advancing i req p env p' c')
  from assms(3) have "ctx_inv D owner (ctx S) (conns S)" by (simp add: sys_inv_def)
  note a = ctx_inv_advance [OF assms(1) this advancing(2-5) refl advancing(6)]
  with advancing assms(3) live_move [of "ctx S" "conns S" i c' "Serving req p'"] show ?thesis
    by (simp add: sys_inv_def move_def)
next
  case (dropped i)
  let ?c = "conn_cancel (conn_phase (conns S ! i)) (ctx S)"
  from dropped assms(3) show ?thesis
    using ctx_inv_cancel [of D owner "ctx S" "conns S" i] droppable_counted(1) [OF dropped(3)] droppable_counted(2) [OF dropped(3)]
      live_move [of "ctx S" "conns S" i "conn_close ?c" Ended]
    by (simp add: sys_inv_def move_def cancel_frame)
next
  case (sweeping now ip)
  with assms(3) xdp_limiter.tracked_retain [OF assms(1), of "ban_manager (ctx S)" "conns S" now ip] show ?thesis
    by (simp add: sys_inv_def ctx_inv_def shared_ok_def)
next
  case (open_conn i)
  then show ?thesis using assms(3) by (auto simp: conn_start_phase intro!: sys_inv_idle)
next
  case (negotiated i r)
  then show ?thesis using assms(3) by (auto simp: idle_phases leave_count intro!: sys_inv_idle)
next
  case (incoming i req)
  then show ?thesis using assms(3) by (auto simp: guard_of_def intro!: sys_inv_idle)
next
  case (replied i req r)
  then show ?thesis using assms(3) by (auto simp: idle_phases leave_count guard_of_def intro!: sys_inv_idle)
next
  case (abandoned i req cost e)
  then show ?thesis using assms(3) by (auto simp: abandon_frame guard_of_def intro!: sys_inv_idle)
qed (use assms(3) in \<open>auto simp: sys_inv_def ctx_inv_accept ctx_inv_admin ctx_inv_route ctx_inv_probe\<close>)

lemma sys_inv_reachable:
  assumes "xdp_limiter (xdp D) covers" "sys_reachable D parse_addr tls owner S0 S" "sys_inv D owner S0"
  shows "sys_inv D owner S"
  using assms(2,3)
proof (induction rule: sys_reachable.induct)
  case (step S S')
  then show ?case using sys_inv_step [OF assms(1)] by blast
qed simp

lemma sys_inv_start:
  fixes l :: "'x option" and store :: 's and owner :: "'c \<Rightarrow> SocketAddr"
  assumes "\<And>x i. l = Some x \<Longrightarrow> \<not> is_ip_blocked (xdp D) x i"
  shows "sys_inv D owner (system_start (initial_context l store))"
proof -
  have "tracked (xdp D) (ban_manager_new l) ([] :: 'c Conn list)" using assms by (auto simp: tracked_def ban_defs split: option.splits)
  moreover have "routing_ok initial_backends (routing_table_new [0, 1])"
    by (simp add: routing_ok_def routing_table_new_def initial_backends_def)
  moreover have "guards_inv initial_backends ([] :: 'c Conn list)"
    by (auto simp: guards_inv_def guards_on_def initial_backends_def less_Suc_eq fresh_backends_idle)
  ultimately show ?thesis
    by (simp add: sys_inv_def ctx_inv_def system_start_def initial_context_def shared_ok_def live_conns_def
        refs_inv_def senders_inv_def conn_pool.sound_def routing_table_new_def)
qed

text \<open>Every state that the running program reaches satisfies the invariant.\<close>

lemma running_inv:
  assumes "xdp_limiter (xdp D) covers" "async_main E tracing = Ret (c0, tls_config)"
    and "\<And>l i. xdp_limiter_init E = Ret (Some l) \<Longrightarrow> \<not> is_ip_blocked (xdp D) l i"
    and "sys_reachable D parse_addr tls owner (system_start c0) S"
  shows "sys_inv D owner S"
proof -
  obtain l store where l: "xdp_limiter_init E = Ret l" "c0 = initial_context l store"
    using async_main_context [OF assms(2)] by blast
  have "sys_inv D owner (system_start c0)" unfolding l(2) using assms(3) l(1) by (intro sys_inv_start) auto
  then show ?thesis by (rule sys_inv_reachable [OF assms(1,4)])
qed

section \<open>After the shutdown signal\<close>

lemma peer_set_phase: "map peer (set_phase i ph cs) = map peer cs"
  by (cases "i < length cs") (auto simp: set_phase_def nth_list_update list_update_beyond intro!: nth_equalityI)

lemma no_new_conns_step:
  assumes "sys_step D parse_addr tls owner S S'" "\<not> listening S"
  shows "\<not> listening S'" and "map peer (conns S') = map peer (conns S)"
  using assms by (cases rule: sys_step.cases; simp add: move_def peer_set_phase)+

lemma no_new_conns:
  assumes "sys_reachable D parse_addr tls owner S0 S" "\<not> listening S0"
  shows "\<not> listening S \<and> map peer (conns S) = map peer (conns S0)"
  using assms
proof (induction rule: sys_reachable.induct)
  case (step S S')
  then show ?case using no_new_conns_step [of D parse_addr tls owner S S'] by simp
qed simp

end
