(* ===== verification/Limits.thy ===== *)
theory Limits
  imports System
begin

text \<open>
  The rate limit while connections run beside each other: the checks that the requests of all connections
  make, in the order in which they reach the store, with the decision that each request meets. What
  happens between two checks, on other connections or on the same one, leaves the store alone, so the
  decisions are those of the store over that sequence.
\<close>

section \<open>Runs with the log of their checks\<close>

definition leaves_limiter :: "'c conn_phase \<Rightarrow> 'c conn_phase \<Rightarrow> bool" where
  "leaves_limiter ph ph' \<longleftrightarrow> (\<exists>req cost. ph = Serving req (Limiting cost)) \<and> ph' \<noteq> ph \<and> ph' \<noteq> Ended"

definition checks :: "('c, 'x, 's) system \<Rightarrow> ('c, 'x, 's) system \<Rightarrow> bool" where
  "checks S S' \<longleftrightarrow> (\<exists>i < length (conns S). leaves_limiter (conn_phase (conns S ! i)) (conn_phase (conns S' ! i)))"

text \<open>
  A run of the system with the log of its checks: key, time and cost, and whether the request went on to
  the selection of a backend. A check whose task was dropped is in the log too, if it reached the store.
  The store answers each check, and its clock agrees with that of the proxy.
\<close>

inductive limit_run ::
  "('w, 's, 'x) Deps \<Rightarrow> (string \<Rightarrow> SocketAddr option) \<Rightarrow> bool \<Rightarrow> ('c \<Rightarrow> SocketAddr)
     \<Rightarrow> ('c, 'x, 's) system \<Rightarrow> (request \<times> bool) list \<Rightarrow> ('c, 'x, 's) system \<Rightarrow> bool"
  for D parse_addr tls owner S0 where
  here: "limit_run D parse_addr tls owner S0 [] S0"
| beside: "limit_run D parse_addr tls owner S0 entries S \<Longrightarrow> sys_step D parse_addr tls owner S S' \<Longrightarrow> \<not> checks S S' \<Longrightarrow>
    rate_store (ctx S') = rate_store (ctx S) \<Longrightarrow> limit_run D parse_addr tls owner S0 entries S'"
| checked: "limit_run D parse_addr tls owner S0 entries S \<Longrightarrow> i < length (conns S) \<Longrightarrow>
    conn_phase (conns S ! i) = Serving req (Limiting cost) \<Longrightarrow> env_ok env \<Longrightarrow> limit_env env = env_at t \<Longrightarrow>
    advance D env req (peer (conns S ! i)) (Limiting cost) (ctx S) = Ret (p', c') \<Longrightarrow>
    limit_run D parse_addr tls owner S0 (entries @ [((rate_key D (peer (conns S ! i)), t, cost), p' = Selecting)])
      (move i (Serving req p') c' S)"
| unheard: "limit_run D parse_addr tls owner S0 entries S \<Longrightarrow> i < length (conns S) \<Longrightarrow>
    conn_phase (conns S ! i) = Serving req (Limiting cost) \<Longrightarrow>
    limit_run D parse_addr tls owner S0 (entries @ [((rate_key D (peer (conns S ! i)), t, cost), False)])
      (move i Ended (conn_close (abandon_check D (env_at t) (peer (conns S ! i)) cost (ctx S))) S)"

fun passed_cost :: "string \<Rightarrow> (request \<times> bool) list \<Rightarrow> nat" where
  "passed_cost k [] = 0"
| "passed_cost k (((k', t, c), passed) # entries) = (if k' = k \<and> passed then unat c else 0) + passed_cost k entries"

section \<open>The log misses nothing\<close>

lemma checks_move:
  "i < length (conns S) \<Longrightarrow> checks S (move i ph c S) \<longleftrightarrow> leaves_limiter (conn_phase (conns S ! i)) ph"
  by (auto simp: checks_def move_def set_phase_def nth_list_update leaves_limiter_def)

lemma checks_same_conns: "conns S' = conns S \<Longrightarrow> \<not> checks S S'"
  by (simp add: checks_def leaves_limiter_def)

lemma advance_store:
  assumes "advance D env req cl p c = Ret (p', c')" "\<And>cost. p \<noteq> Limiting cost"
  shows "rate_store c' = rate_store c"
  using assms by (cases p) (auto simp: outcome_simps Let_def split: if_splits option.splits sum.splits prod.splits list.splits)

text \<open>
  Every step of the system is one that the log passes over, one of a request that gets the answer to its check, or
  one that abandons a check.
\<close>

lemma step_is_logged:
  assumes "sys_step D parse_addr tls owner S S'"
  obtains "\<not> checks S S'" "rate_store (ctx S') = rate_store (ctx S)"
  | i req cost env p' c' where "i < length (conns S)" "conn_phase (conns S ! i) = Serving req (Limiting cost)" "env_ok env"
      "advance D env req (peer (conns S ! i)) (Limiting cost) (ctx S) = Ret (p', c')" "S' = move i (Serving req p') c' S"
  | i req cost e where "i < length (conns S)" "conn_phase (conns S ! i) = Serving req (Limiting cost)"
      "S' = move i Ended (conn_close (abandon_check D e (peer (conns S ! i)) cost (ctx S))) S"
  using assms
proof (cases rule: sys_step.cases)
  case (accept a)
  then show thesis by (intro that(1)) (auto simp: checks_def leaves_limiter_def nth_append)
next
  case (advancing i req p env p' c')
  show thesis
  proof (cases "\<exists>cost. p = Limiting cost")
    case True
    with advancing that(2) show thesis by blast
  next
    case False
    with advance_store [OF advancing(5)] advancing show thesis
      by (intro that(1)) (auto simp: checks_move leaves_limiter_def, simp add: move_def)
  qed
next
  case (abandoned i req cost e)
  then show thesis using that(3) by blast
qed (auto intro!: that(1) simp: checks_move leaves_limiter_def checks_same_conns, auto simp: move_def frame_simps)

section \<open>The log is a run of the store\<close>

definition answer_passes :: "rate_error + RateLimitResult \<Rightarrow> bool" where
  "answer_passes r = (case r of Inr res \<Rightarrow> allowed res | Inl _ \<Rightarrow> True)"

lemma advance_limiting:
  assumes "advance D env req cl (Limiting cost) c = Ret (p', c')"
  shows "rate_store c' = snd (check_limit D (limit_env env) (rate_key D cl) 1000 (from_secs 60) cost (rate_store c))"
    and "p' = Selecting \<longleftrightarrow> answer_passes (fst (check_limit D (limit_env env) (rate_key D cl) 1000 (from_secs 60) cost (rate_store c)))"
  using assms by (auto simp: answer_passes_def split: prod.splits sum.splits if_splits)

lemma advance_limiting_returns: "\<exists>p' c'. advance D env req cl (Limiting cost) c = Ret (p', c')"
  by (simp split: prod.split)

lemma limit_run_store:
  assumes "limit_run D parse_addr tls owner S0 entries S"
  shows "rate_store (ctx S) = snd (store_run (\<lambda>t. check_limit D (env_at t)) 1000 (from_secs 60) (map fst entries) (rate_store (ctx S0)))"
    and "list_all2 (\<lambda>passed r. passed \<longrightarrow> answer_passes r) (map snd entries)
      (fst (store_run (\<lambda>t. check_limit D (env_at t)) 1000 (from_secs 60) (map fst entries) (rate_store (ctx S0))))"
  using assms
proof (induction rule: limit_run.induct)
  case here
  { case 1 show ?case by simp next case 2 show ?case by simp }
next
  case (beside entries S S')
  { case 1 show ?case using beside by simp next case 2 show ?case using beside by simp }
next
  case (checked entries S i req cost env t p' c')
  note a = advance_limiting [OF checked(6), unfolded checked(5)]
  { case 1 show ?case using a(1) checked(7) by (simp add: store_run_append move_def split_beta)
  next case 2 show ?case using a(2) checked(7,8) by (simp add: store_run_append split_beta list_all2_appendI) }
next
  case (unheard entries S i req cost t)
  { case 1 show ?case using unheard(4) by (simp add: store_run_append move_def conn_close_def abandon_check_def split_beta)
  next case 2 show ?case using unheard(5) by (simp add: store_run_append split_beta list_all2_appendI) }
qed

text \<open>A client of the contract: what passes is at most what the store admits, if every check gave an answer.\<close>

lemma passed_le_admitted:
  assumes "list_all2 (\<lambda>passed r. passed \<longrightarrow> answer_passes r) (map snd entries) answers" "list_all (Not \<circ> isl) answers"
  shows "passed_cost k entries \<le> admitted_cost k (map fst entries) answers"
  using assms
proof (induction entries arbitrary: answers)
  case (Cons e entries)
  then obtain r answers' where "answers = r # answers'" by (cases answers) auto
  moreover obtain k' t c b where "e = ((k', t, c), b)" by (metis prod.exhaust)
  ultimately show ?case using Cons by (cases r) (auto simp: answer_passes_def intro: trans_le_add2)
qed simp

context gcra_store
begin

lemma logged_window:
  assumes "check = (\<lambda>t. check_limit D (env_at t))" "sim 60000 t0 (rate_store (ctx S0)) (\<lambda>_. None)"
    and "limit_run D parse_addr tls owner S0 (before @ ((k1, t1, c1), b1) # window) S"
    and "requests_ok 60 t0 (map fst (before @ ((k1, t1, c1), b1) # window))" "60000 \<le> t0"
  shows "60 * passed_cost k (((k1, t1, c1), b1) # window) + t1 \<le> last_time t1 (map fst window) + 60000"
proof -
  let ?checks = "map fst before @ (k1, t1, c1) # map fst window"
  let ?answers = "fst (store_run check 1000 (from_secs 60) ?checks (rate_store (ctx S0)))"
  have ok: "requests_ok 60 t0 ?checks" using assms(4) by simp
  then have "t0 \<le> 2 ^ 50" by (cases before) auto
  then have cfg: "gcra_config (unat (1000 :: u64)) 60 60000 t0" using assms(5) by (simp add: gcra_config_def)
  have entries: "list_all2 (\<lambda>passed r. passed \<longrightarrow> answer_passes r) (map snd (before @ ((k1, t1, c1), b1) # window)) ?answers"
    using limit_run_store(2) [OF assms(3)] assms(1) by simp
  have "?answers = map result_of (fst (spec_run 60 60000 ?checks (\<lambda>_. None)))"
    by (rule run_refines [OF assms(2) cfg proxy_period ok])
  then have all: "list_all (Not \<circ> isl) (drop (length before) ?answers)"
    by (auto simp: list_all_iff result_of_def dest!: in_set_dropD)
  have "list_all2 (\<lambda>passed r. passed \<longrightarrow> answer_passes r) (map snd (((k1, t1, c1), b1) # window)) (drop (length before) ?answers)"
    using list_all2_dropI [OF entries, of "length before"] by simp
  from passed_le_admitted [OF this all, of k]
    run_window [of 60000 t0 "rate_store (ctx S0)" 1000 60 "from_secs 60" "map fst before" k1 t1 c1 "map fst window" k,
      OF assms(2) cfg proxy_period ok]
  show ?thesis by simp
qed

end

end
