(* ===== verification/Drain.thy ===== *)
theory Drain
  imports System
begin

text \<open>
  What becomes of the connections after the shutdown signal: \<open>start_server\<close> has left its loop, the tasks
  it spawned go on. A run in which clients send no further request is \<open>quiet\<close>; control plane, probes and
  sweeper go on in it. Every step of a connection lowers the work that is left, and as long as a
  connection has not ended one of its steps can be taken, so the proxy drains.
\<close>

section \<open>Work\<close>

text \<open>
  The steps a connection can still take before it ends: those of its task and those of the request, with the
  reads of a selection that is under way.
\<close>

fun conn_work :: "'c conn_phase \<Rightarrow> nat" where
  "conn_work Spawned = 3"
| "conn_work TlsAccepting = 2"
| "conn_work Waiting = 1"
| "conn_work (Serving _ p) = 2 + rank p + reads p"
| "conn_work Ended = 0"

definition work :: "'c Conn list \<Rightarrow> nat" where
  "work cs = sum_list (map (\<lambda>c. conn_work (conn_phase c)) cs)"

text \<open>The backends that selections under way have yet to look at, and the requests that have yet to load the table.\<close>

definition unread_total :: "'c Conn list \<Rightarrow> nat" where
  "unread_total cs = sum_list (map (\<lambda>c. length (conn_unread (conn_phase c))) cs)"

fun conn_pending :: "'c conn_phase \<Rightarrow> nat" where
  "conn_pending (Serving _ p) = of_bool (15 \<le> rank p)"
| "conn_pending _ = 0"

definition pending_loads :: "'c Conn list \<Rightarrow> nat" where
  "pending_loads cs = sum_list (map (\<lambda>c. conn_pending (conn_phase c)) cs)"

text \<open>The lengths of the snapshots of the table that a step loads.\<close>

fun conn_loads :: "'c conn_phase \<Rightarrow> 'c conn_phase \<Rightarrow> nat list" where
  "conn_loads (Serving _ p) (Serving _ p') = loads p p'"
| "conn_loads _ _ = []"

definition loaded :: "'c Conn list \<Rightarrow> 'c Conn list \<Rightarrow> nat list" where
  "loaded cs cs' = concat (map2 (\<lambda>c c'. conn_loads (conn_phase c) (conn_phase c')) cs cs')"

definition receives :: "('c, 'x, 's) system \<Rightarrow> ('c, 'x, 's) system \<Rightarrow> bool" where
  "receives S S' \<longleftrightarrow> (\<exists>i < length (conns S). conn_phase (conns S ! i) = Waiting \<and> (\<exists>req p. conn_phase (conns S' ! i) = Serving req p))"

text \<open>A quiet run, with the number of steps that its connections take and the snapshots they load.\<close>

inductive quiet_run ::
  "('w, 's, 'x) Deps \<Rightarrow> (string \<Rightarrow> SocketAddr option) \<Rightarrow> bool \<Rightarrow> ('c \<Rightarrow> SocketAddr)
     \<Rightarrow> ('c, 'x, 's) system \<Rightarrow> nat \<Rightarrow> nat list \<Rightarrow> ('c, 'x, 's) system \<Rightarrow> bool"
  for D parse_addr tls owner S0 where
  here: "quiet_run D parse_addr tls owner S0 0 [] S0"
| beside: "quiet_run D parse_addr tls owner S0 n ls S \<Longrightarrow> sys_step D parse_addr tls owner S S' \<Longrightarrow> conns S' = conns S \<Longrightarrow>
    quiet_run D parse_addr tls owner S0 n ls S'"
| moves: "quiet_run D parse_addr tls owner S0 n ls S \<Longrightarrow> sys_step D parse_addr tls owner S S' \<Longrightarrow> conns S' \<noteq> conns S \<Longrightarrow>
    \<not> receives S S' \<Longrightarrow> quiet_run D parse_addr tls owner S0 (Suc n) (ls @ loaded (conns S) (conns S')) S'"

lemma work_le: "work cs \<le> 19 * length cs + 4 * unread_total cs"
proof (induction cs)
  case (Cons c cs)
  have "rank p + reads p \<le> 17 + 4 * length (unread p)" for p :: "'a phase" by (cases p) simp_all
  then have "conn_work (conn_phase c) \<le> 19 + 4 * length (conn_unread (conn_phase c))" by (cases "conn_phase c") auto
  with Cons show ?case by (simp add: work_def unread_total_def)
qed (simp add: work_def)

lemma pending_le: "pending_loads cs \<le> length cs"
proof (induction cs)
  case (Cons c cs)
  have "conn_pending (conn_phase c) \<le> 1" by (cases "conn_phase c") simp_all
  with Cons show ?case by (simp add: pending_loads_def)
qed (simp add: pending_loads_def)

lemma sum_update:
  fixes f :: "'a \<Rightarrow> nat"
  shows "i < length xs \<Longrightarrow> sum_list (map f (xs[i := y])) + f (xs ! i) = sum_list (map f xs) + f y"
proof (induction xs arbitrary: i)
  case (Cons x xs)
  then show ?case by (cases i) auto
qed simp

lemma loaded_update:
  assumes "i < length cs"
  shows "loaded cs (cs[i := c]) = conn_loads (conn_phase (cs ! i)) (conn_phase c)"
  using assms
proof (induction cs arbitrary: i)
  case (Cons x cs)
  have same: "conn_loads ph ph = []" for ph :: "'a conn_phase" by (cases ph) (simp_all add: loads_def)
  then have "loaded cs cs = []" by (induction cs) (simp_all add: loaded_def)
  with Cons same show ?case by (cases i) (auto simp: loaded_def)
qed simp

text \<open>One connection changes phase: what is left of the work, and of the tables to load, goes down.\<close>

definition progress :: "'c conn_phase \<Rightarrow> 'c conn_phase \<Rightarrow> bool" where
  "progress ph ph' \<longleftrightarrow> conn_work ph' < conn_work ph + 4 * sum_list (conn_loads ph ph')
     \<and> conn_pending ph' + length (conn_loads ph ph') \<le> conn_pending ph"

lemma work_set_phase:
  assumes "i < length cs" "progress (conn_phase (cs ! i)) ph"
  shows "work (set_phase i ph cs) < work cs + 4 * sum_list (loaded cs (set_phase i ph cs))"
    and "pending_loads (set_phase i ph cs) + length (loaded cs (set_phase i ph cs)) \<le> pending_loads cs"
  using sum_update [OF assms(1), of "\<lambda>c. conn_work (conn_phase c)" "(cs ! i)\<lparr>conn_phase := ph\<rparr>"]
    sum_update [OF assms(1), of "\<lambda>c. conn_pending (conn_phase c)" "(cs ! i)\<lparr>conn_phase := ph\<rparr>"]
    loaded_update [OF assms(1), of "(cs ! i)\<lparr>conn_phase := ph\<rparr>"] assms(2)
  by (simp_all add: set_phase_def work_def pending_loads_def progress_def)

lemma set_phase_same: "conn_phase (cs ! i) = ph \<Longrightarrow> set_phase i ph cs = cs"
  by (cases "i < length cs") (auto simp: set_phase_def list_update_beyond)

section \<open>Every step of a connection is progress\<close>

lemma next_phase_progress:
  "progress Spawned (conn_start tls)" "progress TlsAccepting (tls_accepted r)" "progress (Serving req (Finished q)) (after_reply q)"
  "ph \<noteq> Ended \<Longrightarrow> progress ph Ended"
  by (simp_all add: progress_def conn_start_def tls_accepted_def after_reply_def split: sum.split) (cases ph; simp)

lemma advance_progress:
  assumes "advance D env req cl p c = Ret (p', c')" "\<not> finished p"
  shows "progress (Serving req p) (Serving req p')"
proof -
  have "rank p' \<le> rank p" using advance_rank(1) [OF assms] by auto
  moreover have "rank p' < 15" if "p = Selecting" using assms(1) that by auto
  ultimately show ?thesis using advance_rank(2) [OF assms] by (auto simp: progress_def loads_def)
qed

text \<open>A step that is not a new request lets one connection make progress, or leaves all of them as they are.\<close>

lemma quiet_step_progress:
  assumes "sys_step D parse_addr tls owner S S'" "\<not> listening S" "\<not> receives S S'"
  shows "conns S' = conns S
    \<or> (\<exists>i ph. i < length (conns S) \<and> progress (conn_phase (conns S ! i)) ph \<and> conns S' = set_phase i ph (conns S))"
  using assms(1)
proof (cases rule: sys_step.cases)
  case (open_conn i)
  then show ?thesis using next_phase_progress(1) [of tls] by (fastforce simp: move_def)
next
  case (negotiated i r)
  then show ?thesis using next_phase_progress(2) [of r] by (fastforce simp: move_def)
next
  case (incoming i req)
  then show ?thesis using assms(3) by (auto simp: receives_def move_def phase_at)
next
  case (advancing i req p env p' c')
  show ?thesis
  proof (cases "finished p")
    case True
    then have "p' = p" using advancing(5) by (cases p) auto
    then show ?thesis using advancing by (simp add: move_def set_phase_same)
  next
    case False
    then show ?thesis using advancing advance_progress [OF advancing(5)] by (fastforce simp: move_def)
  qed
next
  case (replied i req r)
  then show ?thesis using next_phase_progress(3) [of req r] by (fastforce simp: move_def)
next
  case (dropped i)
  then have "conn_phase (conns S ! i) \<noteq> Ended" by auto
  with dropped show ?thesis using next_phase_progress(4) by (fastforce simp: move_def)
next
  case (abandoned i req cost e)
  then show ?thesis using next_phase_progress(4) [of "Serving req (Limiting cost)"] by (fastforce simp: move_def)
qed (use assms(2) in auto)

text \<open>The requests in flight were in flight before.\<close>

definition target_ok :: "('w, 's, 'x) Deps \<Rightarrow> Request \<Rightarrow> bool" where
  "target_ok D req \<longleftrightarrow> (\<forall>a. valid_uri (http D) (''http://'' @ show_addr (show_v6 D) a @
       (case path_and_query req of Some p \<Rightarrow> p | None \<Rightarrow> ''/'')) \<and> valid_value (http D) (show_addr (show_v6 D) a))"

definition targets_ok :: "('w, 's, 'x) Deps \<Rightarrow> 'c Conn list \<Rightarrow> bool" where
  "targets_ok D cs \<longleftrightarrow> (\<forall>i < length cs. \<forall>req p. conn_phase (cs ! i) = Serving req p \<longrightarrow> target_ok D req)"

lemma targets_set_phase:
  assumes "targets_ok D cs" "i < length cs" "\<And>req p. ph = Serving req p \<Longrightarrow> \<exists>q. conn_phase (cs ! i) = Serving req q"
  shows "targets_ok D (set_phase i ph cs)"
  unfolding targets_ok_def
proof (intro allI impI)
  fix j req p assume j: "j < length (set_phase i ph cs)" "conn_phase (set_phase i ph cs ! j) = Serving req p"
  then have "j < length cs" by (simp add: set_phase_def)
  then obtain q where "conn_phase (cs ! j) = Serving req q" using j(2) assms(3) by (cases "j = i") (auto simp: phase_at [OF assms(2)])
  with assms(1) \<open>j < length cs\<close> show "target_ok D req" by (auto simp: targets_ok_def)
qed

lemma idle_next_phase: "conn_start tls \<noteq> Serving req p" "tls_accepted r \<noteq> Serving req p" "after_reply q \<noteq> Serving req p"
  by (simp_all add: conn_start_def tls_accepted_def after_reply_def split: sum.split)

lemma targets_step:
  assumes "sys_step D parse_addr tls owner S S'" "\<not> listening S" "\<not> receives S S'" "targets_ok D (conns S)"
  shows "targets_ok D (conns S')"
  using assms(1)
proof (cases rule: sys_step.cases)
  case (incoming i req)
  then show ?thesis using assms(3) by (auto simp: receives_def move_def phase_at)
qed (use assms(2,4) in \<open>auto simp: move_def idle_next_phase intro!: targets_set_phase\<close>)

lemma sound_wasm_step:
  assumes "sys_step D parse_addr tls owner S S'" "sys_inv D owner S" "\<not> wasm_poisoned (ctx S)"
  shows "\<not> wasm_poisoned (ctx S')"
  using assms(1)
proof (cases rule: sys_step.cases)
  case (advancing i req p env p' c')
  then show ?thesis using advance_ok(3) [OF advancing(5,4)] assms(2,3) by (simp add: move_def sys_inv_def ctx_inv_def)
qed (use assms(3) in \<open>simp_all add: move_def frame_simps\<close>)

section \<open>No connection is stuck\<close>

text \<open>
  In sane surroundings, whatever they answer, the next operation of a request can be done; surroundings in
  which nothing answers are sane.
\<close>

lemma serving_moves:
  assumes "sys_inv D owner S" "i < length (conns S)" "conn_phase (conns S ! i) = Serving req p" "\<not> finished p"
    and "sane D env req (ctx S)" "\<And>b s. p = Handshaking b \<Longrightarrow> handshake env = Some s \<Longrightarrow>
       fresh_sender owner (bheap (ctx S)) (connection_pool (ctx S)) (conns S) b s"
  shows "\<exists>p' c'. sys_step D parse_addr tls owner S (move i (Serving req p') c' S) \<and> progress (Serving req p) (Serving req p')"
proof -
  have r: "shared_ok (ctx S)" "refers_to (bheap (ctx S)) p"
    using assms(1-3) by (auto simp: sys_inv_def ctx_inv_def refs_inv_def list_all_length refers_to_def)
  obtain p' c' where a: "advance D env req (peer (conns S ! i)) p (ctx S) = Ret (p', c')"
    using advance_returns [OF assms(5) r] by blast
  have "env_ok env" using assms(5) by (simp add: sane_def)
  from sys_step.advancing [OF assms(2,3) this a assms(6)] advance_progress [OF a assms(4)] show ?thesis by blast
qed

definition silent_env :: "'c RequestEnv" where
  "silent_env = \<lparr>select_clock = Some 0, failure_clock = Some 0, limit_env = env_at 0, ban_now = 0, pop_closed = (\<lambda>_. True),
     pooled_ready = (\<lambda>_. False), connect_ok = False, handshake = None, sender_ready = False,
     send_request = (\<lambda>_ _. None), push_closed = (\<lambda>_. True), rtt_elapsed = 0, rtt_s_elapsed = 0, trace_context = []\<rparr>"

lemma silent_sane: "\<not> wasm_poisoned c \<Longrightarrow> target_ok D req \<Longrightarrow> sane D silent_env req c"
  by (simp add: sane_def silent_env_def env_ok_def target_ok_def list_all_iff)

lemma conn_moves:
  assumes "sys_inv D owner S" "\<not> wasm_poisoned (ctx S)" "targets_ok D (conns S)" "i < length (conns S)"
    and "conn_phase (conns S ! i) \<noteq> Ended"
  shows "\<exists>ph c. sys_step D parse_addr tls owner S (move i ph c S) \<and> progress (conn_phase (conns S ! i)) ph"
proof (cases "conn_phase (conns S ! i)")
  case Spawned
  with sys_step.open_conn [OF assms(4)] next_phase_progress(1) [of tls] show ?thesis by fastforce
next
  case TlsAccepting
  with sys_step.negotiated [OF assms(4)] next_phase_progress(2) show ?thesis by fastforce
next
  case Waiting
  with sys_step.dropped [OF assms(4)] next_phase_progress(4) [OF assms(5)] show ?thesis by fastforce
next
  case (Serving req p)
  show ?thesis
  proof (cases "finished p")
    case True
    then obtain r where "p = Finished r" by (cases p) simp_all
    with Serving sys_step.replied [OF assms(4)] next_phase_progress(3) [of req r] show ?thesis by fastforce
  next
    case False
    have "sane D silent_env req (ctx S)" using assms(2-4) Serving by (auto simp: targets_ok_def intro!: silent_sane)
    from serving_moves [OF assms(1,4) Serving False this] Serving show ?thesis by (fastforce simp: silent_env_def)
  qed
qed (use assms(5) in simp)

lemma move_quiet:
  assumes "i < length (conns S)" "progress (conn_phase (conns S ! i)) ph"
  shows "conns (move i ph c S) \<noteq> conns S" "\<not> receives S (move i ph c S)"
proof -
  have "\<not> progress ph' ph'" for ph' :: "'a conn_phase" by (cases ph') (simp_all add: progress_def loads_def)
  with assms(2) have "ph \<noteq> conn_phase (conns S ! i)" by auto
  then show "conns (move i ph c S) \<noteq> conns S" using phase_at [OF assms(1), of ph i] by (auto simp: move_def)
  show "\<not> receives S (move i ph c S)"
    using assms by (auto simp: receives_def move_def phase_at progress_def split: if_splits)
qed

section \<open>Quiet runs\<close>

lemma quiet_run_invariant:
  assumes "quiet_run D parse_addr tls owner S n ls S'" "xdp_limiter (xdp D) covers"
    and "sys_inv D owner S" "\<not> wasm_poisoned (ctx S)" "targets_ok D (conns S)" "\<not> listening S"
  shows "sys_inv D owner S' \<and> \<not> wasm_poisoned (ctx S') \<and> targets_ok D (conns S') \<and> \<not> listening S'
    \<and> n + work (conns S') \<le> work (conns S) + 4 * sum_list ls \<and> length ls + pending_loads (conns S') \<le> pending_loads (conns S)"
  using assms(1)
proof (induction rule: quiet_run.induct)
  case here
  show ?case using assms(3-6) by simp
next
  case (beside n ls T T')
  then show ?case
    using sys_inv_step [OF assms(2) beside(2)] sound_wasm_step [OF beside(2)] no_new_conns_step(1) [OF beside(2)] by auto
next
  case (moves n ls T T')
  obtain i ph where "i < length (conns T)" "progress (conn_phase (conns T ! i)) ph" "conns T' = set_phase i ph (conns T)"
    using quiet_step_progress [OF moves(2)] moves(3-5) by blast
  from work_set_phase [OF this(1,2)] this(3) moves show ?case
    using sys_inv_step [OF assms(2) moves(2)] sound_wasm_step [OF moves(2)] no_new_conns_step(1) [OF moves(2)]
      targets_step [OF moves(2)] by auto
qed

lemma running_sound_wasm:
  assumes "xdp_limiter (xdp D) covers" "async_main E tracing = Ret (c0, tls_config)"
    and "\<And>l i. xdp_limiter_init E = Ret (Some l) \<Longrightarrow> \<not> is_ip_blocked (xdp D) l i"
    and "sys_reachable D parse_addr tls owner (system_start c0) S"
  shows "\<not> wasm_poisoned (ctx S)"
  using assms(4)
proof (induction rule: sys_reachable.induct)
  case start
  show ?case using async_main_context [OF assms(2)] by (auto simp: system_start_def initial_context_def)
next
  case (step T T')
  then show ?case using sound_wasm_step running_inv [OF assms(1-3)] by blast
qed

lemma ended_counts:
  assumes "sys_inv D owner S" "list_all (\<lambda>c. conn_phase c = Ended) (conns S)"
  shows "active_connections (ctx S) = 0" "b < length (bheap (ctx S)) \<Longrightarrow> active_requests (b_ewma (bheap (ctx S) ! b)) = 0"
proof -
  have e: "conn_phase c = Ended" if "c \<in> set (conns S)" for c using assms(2) that by (simp add: list_all_iff)
  have "live_conns (conns S) = 0" "guards_on b (conns S) = 0" for b
    using e by (auto simp: live_conns_def guards_on_def filter_empty_conv)
  with assms(1) show "active_connections (ctx S) = 0"
    "b < length (bheap (ctx S)) \<Longrightarrow> active_requests (b_ewma (bheap (ctx S) ! b)) = 0"
    by (simp_all add: sys_inv_def ctx_inv_def guards_inv_def)
qed

end
