(* ===== verification/Control.thy ===== *)
theory Control
  imports System
begin

text \<open>
  What the control plane and the kernel filter can rely on while the proxy runs. While a backend stays out of
  the table no request comes to know of it, and while it stays unhealthy none comes to accept it: those that
  can still be given to it are the ones that had loaded the old table, or found it healthy, before. And
  whatever every blocking and unblocking keeps of the limiter holds along a run.
\<close>

section \<open>Withdrawn backends\<close>

text \<open>A run in which every state has a property.\<close>

inductive run_while ::
  "('w, 's, 'x) Deps \<Rightarrow> (string \<Rightarrow> SocketAddr option) \<Rightarrow> bool \<Rightarrow> ('c \<Rightarrow> SocketAddr) \<Rightarrow> (('c, 'x, 's) ServerContext \<Rightarrow> bool)
     \<Rightarrow> ('c, 'x, 's) system \<Rightarrow> ('c, 'x, 's) system \<Rightarrow> bool"
  for D parse_addr tls owner P S0 where
  here: "P (ctx S0) \<Longrightarrow> run_while D parse_addr tls owner P S0 S0"
| later: "run_while D parse_addr tls owner P S0 S \<Longrightarrow> sys_step D parse_addr tls owner S S' \<Longrightarrow> P (ctx S') \<Longrightarrow>
    run_while D parse_addr tls owner P S0 S'"

text \<open>
  A backend can be withdrawn in two ways. A request that has loaded the table may still look at a backend that
  is taken out of it; one that has found a backend healthy may still use it when it turns out dead.
\<close>

definition delisted :: "bref \<Rightarrow> ('c, 'x, 's) ServerContext \<Rightarrow> bool" where
  "delisted b c \<longleftrightarrow> b \<notin> set (backends (routing_table c))"

definition found_dead :: "bref \<Rightarrow> ('c, 'x, 's) ServerContext \<Rightarrow> bool" where
  "found_dead b c \<longleftrightarrow> \<not> healthy (bheap c ! b)"

definition knows :: "bref \<Rightarrow> 'c conn_phase \<Rightarrow> bool" where
  "knows b ph \<longleftrightarrow> b \<in> set (conn_candidates ph) \<union> set (conn_unread ph)"

definition may_use :: "bref \<Rightarrow> 'c conn_phase \<Rightarrow> bool" where
  "may_use b ph \<longleftrightarrow> b \<in> set (conn_candidates ph)"

text \<open>The connections whose phase has a property.\<close>

definition conns_where :: "('c conn_phase \<Rightarrow> bool) \<Rightarrow> 'c Conn list \<Rightarrow> nat set" where
  "conns_where Q cs = {i. i < length cs \<and> Q (conn_phase (cs ! i))}"

lemma where_move: "i < length cs \<Longrightarrow> (Q ph \<Longrightarrow> Q (conn_phase (cs ! i))) \<Longrightarrow> conns_where Q (set_phase i ph cs) \<subseteq> conns_where Q cs"
  by (auto simp: conns_where_def set_phase_def nth_list_update split: if_splits)

lemma where_clear: "i < length cs \<Longrightarrow> \<not> Q ph \<Longrightarrow> conns_where Q (set_phase i ph cs) \<subseteq> conns_where Q cs"
  by (rule where_move) simp_all

lemma where_step:
  fixes Q :: "'c conn_phase \<Rightarrow> bool"
  assumes "sys_step D parse_addr tls owner S S'" "\<And>ph. conn_candidates ph = [] \<Longrightarrow> conn_unread ph = [] \<Longrightarrow> \<not> Q ph"
    and "\<And>env req cl p p' c'. advance D env req cl p (ctx S) = Ret (p', c') \<Longrightarrow> Q (Serving req p') \<Longrightarrow> Q (Serving req p)"
  shows "conns_where Q (conns S') \<subseteq> conns_where Q (conns S)"
  using assms(1)
proof (cases rule: sys_step.cases)
  case (accept a)
  have "\<not> Q Spawned" by (rule assms(2)) simp_all
  then show ?thesis using accept by (auto simp: conns_where_def conn_new_def nth_append split: if_splits)
next
  case (advancing i req p env p' c')
  then show ?thesis unfolding advancing(1) using assms(3) [OF advancing(5)] by (simp add: move_def where_move)
next
  case (open_conn i)
  have "\<not> Q (conn_start tls)" by (rule assms(2)) (simp_all add: conn_start_phase)
  then show ?thesis unfolding open_conn(1) using open_conn(2) by (simp add: move_def where_clear)
next
  case (negotiated i r)
  have "\<not> Q (tls_accepted r)" by (rule assms(2)) (simp_all add: idle_phases)
  then show ?thesis unfolding negotiated(1) using negotiated(2) by (simp add: move_def where_clear)
next
  case (incoming i req)
  have "\<not> Q (Serving req Arrived)" by (rule assms(2)) simp_all
  then show ?thesis unfolding incoming(1) using incoming(2) by (simp add: move_def where_clear)
next
  case (replied i req r)
  have "\<not> Q (after_reply r)" by (rule assms(2)) (simp_all add: idle_phases)
  then show ?thesis unfolding replied(1) using replied(2) by (simp add: move_def where_clear)
next
  case (dropped i)
  have "\<not> Q Ended" by (rule assms(2)) simp_all
  then show ?thesis unfolding dropped(1) using dropped(2) by (simp add: move_def where_clear)
next
  case (abandoned i req cost e)
  have "\<not> Q Ended" by (rule assms(2)) simp_all
  then show ?thesis unfolding abandoned(1) using abandoned(2) by (simp add: move_def where_clear)
qed simp_all

lemma knows_step:
  assumes "sys_step D parse_addr tls owner S S'" "delisted b (ctx S)"
  shows "conns_where (knows b) (conns S') \<subseteq> conns_where (knows b) (conns S)"
  using assms(1)
proof (rule where_step)
  show "knows b (Serving req p)" if "advance D env req cl p (ctx S) = Ret (p', c')" "knows b (Serving req p')" for env req cl p p' c'
    using advance_candidates [OF that(1)] that(2) assms(2) by (auto simp: knows_def delisted_def)
qed (simp add: knows_def)

lemma may_use_step:
  assumes "sys_step D parse_addr tls owner S S'" "found_dead b (ctx S)"
  shows "conns_where (may_use b) (conns S') \<subseteq> conns_where (may_use b) (conns S)"
  using assms(1)
proof (rule where_step)
  show "may_use b (Serving req p)" if "advance D env req cl p (ctx S) = Ret (p', c')" "may_use b (Serving req p')" for env req cl p p' c'
    using advance_candidates(1) [OF that(1)] that(2) assms(2) by (auto simp: may_use_def found_dead_def)
qed (simp add: may_use_def)

lemma run_while_last: "run_while D parse_addr tls owner P S S' \<Longrightarrow> P (ctx S')"
  by (induction rule: run_while.induct) simp_all

lemma knows_run: "run_while D parse_addr tls owner (delisted b) S S' \<Longrightarrow> conns_where (knows b) (conns S') \<subseteq> conns_where (knows b) (conns S)"
proof (induction rule: run_while.induct)
  case (later T T')
  then show ?case using knows_step [OF later(2)] run_while_last [OF later(1)] by blast
qed simp

lemma may_use_run: "run_while D parse_addr tls owner (found_dead b) S S' \<Longrightarrow> conns_where (may_use b) (conns S') \<subseteq> conns_where (may_use b) (conns S)"
proof (induction rule: run_while.induct)
  case (later T T')
  then show ?case using may_use_step [OF later(2)] run_while_last [OF later(1)] by blast
qed simp

section \<open>The limiter of the ban manager\<close>

text \<open>What blocking and unblocking keep of the limiter, the ban manager keeps.\<close>

definition limiter_all :: "('x \<Rightarrow> bool) \<Rightarrow> 'x BanManager \<Rightarrow> bool" where
  "limiter_all P bm \<longleftrightarrow> (\<forall>l. limiter bm = Some l \<longrightarrow> P l)"

lemma limiter_all_block:
  assumes "\<And>s ip. P s \<Longrightarrow> P (snd (block_ip L s ip))" "limiter_all P bm"
  shows "limiter_all P (snd (ban_block L ip bm))"
proof (cases "limiter bm")
  case (Some s)
  then have "P (snd (block_ip L s ip))" using assms by (simp add: limiter_all_def)
  with Some show ?thesis by (auto simp: limiter_all_def ban_block_def split: prod.splits sum.splits)
qed (use assms(2) in \<open>simp add: ban_block_def\<close>)

lemma limiter_all_retain:
  assumes "\<And>s ip. P s \<Longrightarrow> P (snd (unblock_ip L s ip))" "limiter_all P bm"
  shows "limiter_all P (retain_entry L now bm ip)"
proof (cases "limiter bm")
  case (Some s)
  then have "P (snd (unblock_ip L s ip))" "P s" using assms by (simp_all add: limiter_all_def)
  with Some show ?thesis by (auto simp: limiter_all_def retain_entry_def split: prod.splits sum.splits option.splits)
qed (auto simp: limiter_all_def retain_entry_def split: option.splits)

lemma limiter_all_step:
  assumes "sys_step D parse_addr tls owner S S'" "limiter_all P (ban_manager (ctx S))"
    and "\<And>s ip. P s \<Longrightarrow> P (snd (block_ip (xdp D) s ip))" "\<And>s ip. P s \<Longrightarrow> P (snd (unblock_ip (xdp D) s ip))"
  shows "limiter_all P (ban_manager (ctx S'))"
  using assms(1)
proof (cases rule: sys_step.cases)
  case (advancing i req p env p' c')
  have "limiter_all P (ban_manager c')"
    using advancing(5)
  proof (cases rule: advance_bans)
    case 2
    then show ?thesis using limiter_all_block [of P "xdp D", OF assms(3,2)] by (metis snd_conv)
  qed (use assms(2) in \<open>simp_all add: ban_record_def limiter_all_def\<close>)
  then show ?thesis using advancing(1) by (simp add: move_def)
next
  case (sweeping now ip)
  then show ?thesis using limiter_all_retain [of P "xdp D", OF assms(4,2)] by simp
qed (use assms(2) in \<open>simp_all add: move_def frame_simps del: admin_service.simps\<close>)

end
