(* ===== verification/Process.thy ===== *)
theory Process
  imports Startup Listener
begin

text \<open>
  \<open>main\<close> of \<open>vortex-proxy/src/main.rs\<close> from end to end: the runtime, \<open>async_main\<close> with the server at its end,
  and what the process returns; and the initialisers of the crate roots, which print a line.
\<close>

section \<open>The process\<close>

text \<open>
  What becomes of a panic in a spawned task, such as a connection's: the release profile of \<open>Cargo.toml\<close> has
  \<open>panic = "abort"\<close>, so that it ends the process; in other builds the runtime catches it and only the task ends.
\<close>

definition spawned_tasks :: "bool \<Rightarrow> unit outcome list \<Rightarrow> unit outcome" where
  "spawned_tasks panic_abort tasks = (if panic_abort \<and> Panic \<in> set tasks then Panic else Ret ())"

text \<open>
  The end of \<open>async_main\<close>: a server that fails is reported on standard error, a server that is still
  accepting has not returned (\<open>None\<close>); after it, in both cases, the tasks have two seconds and the
  process reports success. The first component is what was printed. \<open>tasks\<close> are the outcomes of the spawned
  tasks that have ended until then.
\<close>

definition grace_period :: Duration where
  "grace_period = from_secs 2"

definition run_server ::
  "bool \<Rightarrow> string + unit \<Rightarrow> accept_event list \<Rightarrow> unit outcome list
     \<Rightarrow> (string list \<times> (Duration \<times> (string + unit)) option) outcome" where
  "run_server panic_abort bind events tasks =
     obind (spawned_tasks panic_abort tasks) (\<lambda>_.
       Ret (case start_server bind events of
              Inl e \<Rightarrow> ([''Server failed: '' @ e, ''Shutting down gracefully.''], Some (grace_period, Inr ()))
            | Inr (clients, stopped) \<Rightarrow>
                if stopped then ([''Shutting down gracefully.''], Some (grace_period, Inr ())) else ([], None)))"

text \<open>\<open>build\<close> makes the Tokio runtime with so many workers; \<open>cores\<close> is what \<open>get_core_ids\<close> finds.\<close>

definition main ::
  "bool \<Rightarrow> 'core list option \<Rightarrow> (nat \<Rightarrow> string + unit) \<Rightarrow> ('tr, 'pb, 'c, 'k, 'bpf, 'x, 'e, 's) StartEnv \<Rightarrow> 'tr Tracing
     \<Rightarrow> string + unit \<Rightarrow> accept_event list \<Rightarrow> unit outcome list \<Rightarrow> (string list \<times> (Duration \<times> (string + unit)) option) outcome" where
  "main panic_abort cores build E tracing bind events tasks =
     (let core_ids = (case cores of Some ids \<Rightarrow> ids | None \<Rightarrow> [])
      in case build (worker_threads core_ids) of
           Inl e \<Rightarrow> Ret ([], Some (0, Inl e))
         | Inr _ \<Rightarrow>
             obind (async_main E tracing :: ((nat, 'x, 's) ServerContext \<times> ('c, 'k) ServerConfig) outcome) (\<lambda>_.
               run_server panic_abort bind events tasks))"

section \<open>Crate roots\<close>

definition core_init :: "string list \<Rightarrow> string list" where
  "core_init out = out @ [''vortex-core initialized'']"

definition filters_init :: "string list \<Rightarrow> string list" where
  "filters_init out = out @ [''vortex-filters initialized'']"

definition admin_init :: "string list \<Rightarrow> string list" where
  "admin_init out = out @ [''Vortex Admin (UDS) module initialization sweep complete.'']"

section \<open>Properties\<close>

lemma accept_loop_stops: "snd (accept_loop evs) \<longleftrightarrow> ShutdownSignal \<in> set evs"
  by (induction evs rule: accept_loop.induct) (auto split: prod.splits)

text \<open>
  C30. What the process reports. With a runtime, the process panics exactly when start-up does or, in a release
  build, a spawned task does; otherwise it returns exactly when the listener cannot be bound or the shutdown channel
  has yielded, and then always with success, two seconds later: a proxy that never listened ends like one that was
  shut down, with only a line on standard error to tell. An error is returned only when there is no runtime,
  and then nothing was started.
\<close>

theorem exit_status_is_always_success:
  "case build (worker_threads (case cores of Some ids \<Rightarrow> ids | None \<Rightarrow> [])) of
     Inl e \<Rightarrow> main panic_abort cores build E tracing bind events tasks = Ret ([], Some (0, Inl e))
   | Inr _ \<Rightarrow>
       (case main panic_abort cores build E tracing bind events tasks of
          Panic \<Rightarrow> (async_main E tracing :: ((nat, 'x, 's) ServerContext \<times> ('c, 'k) ServerConfig) outcome) = Panic
            \<or> panic_abort \<and> Panic \<in> set tasks
        | Ret (out, res) \<Rightarrow> (async_main E tracing :: ((nat, 'x, 's) ServerContext \<times> ('c, 'k) ServerConfig) outcome) \<noteq> Panic
            \<and> \<not> (panic_abort \<and> Panic \<in> set tasks)
            \<and> res = (if (\<exists>e. bind = Inl e) \<or> ShutdownSignal \<in> set events then Some (from_secs 2, Inr ()) else None)
            \<and> ((\<exists>e. bind = Inl e) \<longleftrightarrow> (\<exists>e. ''Server failed: '' @ e \<in> set out)))"
proof -
  have r: "case run_server panic_abort bind events tasks of
      Panic \<Rightarrow> panic_abort \<and> Panic \<in> set tasks
    | Ret (out, res) \<Rightarrow> \<not> (panic_abort \<and> Panic \<in> set tasks)
        \<and> res = (if (\<exists>e. bind = Inl e) \<or> ShutdownSignal \<in> set events then Some (from_secs 2, Inr ()) else None)
        \<and> ((\<exists>e. bind = Inl e) \<longleftrightarrow> (\<exists>e. ''Server failed: '' @ e \<in> set out))"
    using accept_loop_stops [of events]
    by (cases bind; cases "accept_loop events"; auto simp: run_server_def spawned_tasks_def start_server_def grace_period_def)
  show ?thesis
  proof (cases "build (worker_threads (case cores of Some ids \<Rightarrow> ids | None \<Rightarrow> []))")
    case (Inl e)
    then show ?thesis by (simp add: main_def)
  next
    case (Inr u)
    then show ?thesis
      by (cases "async_main E tracing :: ((nat, 'x, 's) ServerContext \<times> ('c, 'k) ServerConfig) outcome")
        (use r in \<open>auto simp: main_def split: prod.splits outcome.splits\<close>)
  qed
qed

end
