(* ===== verification/Trace.thy ===== *)
theory Trace
  imports Server
begin

text \<open>
  The service closure of \<open>start_server\<close> in \<open>vortex-proxy/src/server.rs\<close>: the trace context of a request is read
  at the edge, becomes the parent of the span \<open>forward_request\<close> runs in, and the context of that span is
  what the handler injects into the upstream request. The OpenTelemetry libraries are a parameter,
  \<open>OpenTelemetry\<close>; \<open>trace_sdk\<close> states what the W3C propagator and the span layer document.
\<close>

section \<open>The edge\<close>

text \<open>\<open>HeaderExtractor\<close>: \<open>get\<close> is \<open>header_str\<close>; \<open>keys\<close> are the names that have a value.\<close>

definition extractor_keys :: "HeaderMap \<Rightarrow> string set" where
  "extractor_keys h = {k. h k \<noteq> []}"

text \<open>
  \<open>extract_context\<close> and \<open>inject_context\<close> are the global propagator; \<open>span_context\<close> is the context of the span
  \<open>proxy_request\<close> once its parent is set, which \<open>Span::current().context()\<close> reads inside the handler.
\<close>

record 'cx OpenTelemetry =
  extract_context :: "(string \<Rightarrow> string option) \<Rightarrow> 'cx"
  span_context :: "'cx \<Rightarrow> string \<Rightarrow> string \<Rightarrow> 'cx"
  inject_context :: "'cx \<Rightarrow> (string \<times> string) list"

definition proxy_span :: "'cx OpenTelemetry \<Rightarrow> HttpCrate \<Rightarrow> Request \<Rightarrow> 'cx" where
  "proxy_span T H req =
     (let parent_cx = extract_context T (header_str H (req_headers req))
      in span_context T parent_cx (http_method req) (uri req))"

definition service_env :: "'cx OpenTelemetry \<Rightarrow> HttpCrate \<Rightarrow> Request \<Rightarrow> 'c RequestEnv \<Rightarrow> 'c RequestEnv" where
  "service_env T H req env = env\<lparr>trace_context := inject_context T (proxy_span T H req)\<rparr>"

definition service_request ::
  "'cx OpenTelemetry \<Rightarrow> ('w, 's, 'x) Deps \<Rightarrow> 'c RequestEnv \<Rightarrow> Request \<Rightarrow> SocketAddr \<Rightarrow> ('c, 'x, 's) ServerContext
     \<Rightarrow> ((string + Response) \<times> ('c, 'x, 's) ServerContext) outcome" where
  "service_request T D env req client_addr ctx = forward_request D (service_env T (http D) req env) req client_addr ctx"

section \<open>What the libraries document\<close>

definition hex_lower :: "string \<Rightarrow> bool" where
  "hex_lower s \<longleftrightarrow> set s \<subseteq> set ''0123456789abcdef''"

text \<open>
  The values of the header that the W3C propagator accepts: version 00, lower-case hex, no zero identifier, and
  flags that version 00 knows, which it takes to be at most 02.
\<close>

definition w3c_valid :: "W3CTraceParent \<Rightarrow> bool" where
  "w3c_valid tp \<longleftrightarrow> traceparent_ok tp \<and> version tp = ''00'' \<and> hex_lower (trace_id tp) \<and> hex_lower (parent_id tp)
     \<and> trace_flags tp \<in> {''00'', ''01'', ''02''} \<and> set (trace_id tp) \<noteq> {CHR ''0''} \<and> set (parent_id tp) \<noteq> {CHR ''0''}"

text \<open>The header value continues the trace \<open>t\<close>.\<close>

definition continues :: "string \<Rightarrow> string \<Rightarrow> bool" where
  "continues t v \<longleftrightarrow> (case parse_w3c_traceparent v of Some tp \<Rightarrow> trace_id tp = t | None \<Rightarrow> False)"

text \<open>
  \<open>trace_of\<close> is the trace a context belongs to. A valid header is extracted with its trace; a span belongs to
  the trace of its parent, or it is disabled and nothing is injected from inside it; a context
  of a trace is injected under \<open>traceparent\<close> with that trace.
\<close>

definition trace_sdk :: "'cx OpenTelemetry \<Rightarrow> ('cx \<Rightarrow> string option) \<Rightarrow> bool" where
  "trace_sdk T trace_of \<longleftrightarrow>
     (\<forall>get s tp. get ''traceparent'' = Some s \<longrightarrow> parse_w3c_traceparent s = Some tp \<longrightarrow> w3c_valid tp \<longrightarrow>
        trace_of (extract_context T get) = Some (trace_id tp))
   \<and> (\<forall>cx m u. trace_of (span_context T cx m u) = trace_of cx \<or> inject_context T (span_context T cx m u) = [])
   \<and> (\<forall>cx t. trace_of cx = Some t \<longrightarrow>
        (\<forall>kv \<in> set (inject_context T cx). to_lowercase (fst kv) = ''traceparent'' \<longrightarrow> continues t (snd kv)))"

section \<open>Lemmas\<close>

text \<open>After injection a header has the value it had, or one that was injected under its name.\<close>

lemma inject_result:
  "foldl (injector_set vn vv) h kvs name = h name
   \<or> (\<exists>kv \<in> set kvs. to_lowercase (fst kv) = name \<and> foldl (injector_set vn vv) h kvs name = [snd kv])"
proof (induction kvs rule: rev_induct)
  case (snoc kv kvs)
  then show ?case by (auto simp: injector_set_def header_insert_def)
qed simp

lemma prepare_request_headers:
  assumes "prepare_request D env a req = Ret req'"
  shows "req_headers req' = foldl (injector_set (valid_name (http D)) (valid_value (http D)))
     (header_insert (req_headers req) ''host'' (show_addr (show_v6 D) a)) (trace_context env)"
  using assms by (auto simp: prepare_request_def inject_trace_context_def Let_def split: if_splits)

lemma lower_names: "to_lowercase ''traceparent'' = ''traceparent''" "to_lowercase ''host'' = ''host''" "to_lowercase ''tracestate'' = ''tracestate''"
  by (simp_all add: to_lowercase_def lower_char_def)

section \<open>Properties\<close>

text \<open>
  C22. The proxy continues the client's trace. When a request comes in with a \<open>traceparent\<close> header that the
  propagator accepts (version 00, lower-case identifiers that are not zero, flags 00 to 02), the request that goes to the upstream has a \<open>traceparent\<close> header, well-formed by the
  proxy's own parser and with the client's trace identifier, whether or not the proxy's span is enabled and
  whether or not the value to inject is one the header map accepts.
\<close>

theorem upstream_continues_client_trace:
  assumes "trace_sdk T trace_of"
    and "header_str (http D) (req_headers req) ''traceparent'' = Some s" "parse_w3c_traceparent s = Some tp" "w3c_valid tp"
    and "prepare_request D (service_env T (http D) req env) a req = Ret req'"
  shows "\<exists>s' tp'. header_get (req_headers req') ''traceparent'' = Some s' \<and> parse_w3c_traceparent s' = Some tp'
    \<and> trace_id tp' = trace_id tp"
proof -
  let ?kvs = "inject_context T (proxy_span T (http D) req)"
  have "trace_of (extract_context T (header_str (http D) (req_headers req))) = Some (trace_id tp)"
    using assms(1-4) by (auto simp: trace_sdk_def)
  then have "?kvs = [] \<or> trace_of (proxy_span T (http D) req) = Some (trace_id tp)"
    using assms(1) unfolding trace_sdk_def proxy_span_def Let_def by metis
  then have inj: "continues (trace_id tp) (snd kv)" if "kv \<in> set ?kvs" "to_lowercase (fst kv) = ''traceparent''" for kv
    using assms(1) that unfolding trace_sdk_def by fastforce
  have old: "header_get (req_headers req) ''traceparent'' = Some s" using assms(2) by (auto simp: header_str_def split: option.splits if_splits)
  have "req_headers req' ''traceparent'' = req_headers req ''traceparent''
      \<or> (\<exists>kv \<in> set ?kvs. to_lowercase (fst kv) = ''traceparent'' \<and> req_headers req' ''traceparent'' = [snd kv])"
    using inject_result [of "valid_name (http D)" "valid_value (http D)" "header_insert (req_headers req) ''host'' (show_addr (show_v6 D) a)" ?kvs "''traceparent''"]
    unfolding prepare_request_headers [OF assms(5)] by (simp add: service_env_def header_insert_def lower_names)
  then show ?thesis
  proof
    assume "req_headers req' ''traceparent'' = req_headers req ''traceparent''"
    then show ?thesis using old assms(3) by (auto simp: header_get_def lower_names)
  next
    assume "\<exists>kv \<in> set ?kvs. to_lowercase (fst kv) = ''traceparent'' \<and> req_headers req' ''traceparent'' = [snd kv]"
    then obtain kv where kv: "kv \<in> set ?kvs" "to_lowercase (fst kv) = ''traceparent''" "req_headers req' ''traceparent'' = [snd kv]" by blast
    from inj [OF kv(1,2)] kv(3) show ?thesis by (auto simp: continues_def header_get_def lower_names split: option.splits)
  qed
qed

text \<open>A propagator with contexts that are trace identifiers, and spans with a fixed identifier.\<close>

definition demo_sdk :: "string option OpenTelemetry" where
  "demo_sdk = \<lparr>extract_context = (\<lambda>get. Option.bind (get ''traceparent'') (\<lambda>s. map_option trace_id (parse_w3c_traceparent s))),
     span_context = (\<lambda>cx _ _. cx),
     inject_context = (\<lambda>cx. case cx of None \<Rightarrow> []
       | Some t \<Rightarrow> [(''traceparent'', show_traceparent \<lparr>version = ''00'', trace_id = t, parent_id = ''00f067aa0ba902b8'', trace_flags = ''01''\<rparr>)])\<rparr>"

definition demo_trace_of :: "string option \<Rightarrow> string option" where
  "demo_trace_of cx = Option.bind cx (\<lambda>t. if length t = 32 \<and> CHR ''-'' \<notin> set t then Some t else None)"

lemma demo_trace_sdk: "trace_sdk demo_sdk demo_trace_of"
proof -
  have "continues t (show_traceparent \<lparr>version = ''00'', trace_id = t, parent_id = ''00f067aa0ba902b8'', trace_flags = ''01''\<rparr>)"
    if "length t = 32" "CHR ''-'' \<notin> set t" for t
  proof -
    have "parse_w3c_traceparent (show_traceparent \<lparr>version = ''00'', trace_id = t, parent_id = ''00f067aa0ba902b8'', trace_flags = ''01''\<rparr>)
        = Some \<lparr>version = ''00'', trace_id = t, parent_id = ''00f067aa0ba902b8'', trace_flags = ''01''\<rparr>"
      using that by (simp add: parse_iff_printed traceparent_ok_def)
    then show ?thesis by (simp add: continues_def)
  qed
  then show ?thesis
    unfolding trace_sdk_def demo_sdk_def demo_trace_of_def
    by (auto simp: w3c_valid_def traceparent_ok_def split: option.splits if_splits bind_splits)
qed

definition traced_request :: Request where
  "traced_request = demo_request\<lparr>req_headers := (\<lambda>_. [])(''traceparent'' := [''00-4bf92f3577b34da6a3ce929d0e0e4736-00f067aa0ba902b7-01''])\<rparr>"

theorem upstream_continues_client_trace_witness:
  "\<exists>req' s' tp'. prepare_request demo_deps (service_env demo_sdk demo_http traced_request demo_env) addr_a traced_request = Ret req'
     \<and> header_get (req_headers req') ''traceparent'' = Some s' \<and> parse_w3c_traceparent s' = Some tp'
     \<and> trace_id tp' = ''4bf92f3577b34da6a3ce929d0e0e4736''"
proof -
  let ?s = "''00-4bf92f3577b34da6a3ce929d0e0e4736-00f067aa0ba902b7-01''"
  define tp where "tp = \<lparr>version = ''00'', trace_id = ''4bf92f3577b34da6a3ce929d0e0e4736'', parent_id = ''00f067aa0ba902b7'', trace_flags = ''01''\<rparr>"
  have h: "http demo_deps = demo_http" by (simp add: demo_deps_def)
  have s: "header_str (http demo_deps) (req_headers traced_request) ''traceparent'' = Some ?s"
    by (simp add: header_str_def header_get_def lower_names traced_request_def h demo_http_def)
  have p: "parse_w3c_traceparent ?s = Some tp"
    unfolding parse_iff_printed by (simp add: traceparent_ok_def show_traceparent_def tp_def)
  have v: "w3c_valid tp" by (auto simp: w3c_valid_def traceparent_ok_def hex_lower_def tp_def)
  obtain req' where r: "prepare_request demo_deps (service_env demo_sdk (http demo_deps) traced_request demo_env) addr_a traced_request = Ret req'"
    by (simp add: prepare_request_def demo_deps_def demo_http_def Let_def)
  from upstream_continues_client_trace [OF demo_trace_sdk s p v r] r show ?thesis unfolding h tp_def by auto
qed

end
