(* ===== verification/Breaker_Race.thy ===== *)
theory Breaker_Race
  imports Circuit_Breaker
begin

text \<open>
  \<open>circuit_breaker.rs\<close> under concurrency. \<open>record_success\<close> is two stores, \<open>record_failure\<close> a \<open>fetch_add\<close>, a
  reading of the clock and a store; requests on different threads interleave them. \<open>race\<close> is the breaker
  with the point each thread has reached, the clock, and for the proofs the outcomes in the order in
  which they reached the failure counter.
\<close>

section \<open>Threads\<close>

datatype cb_pc = AtRest | SuccessHalf | FailureHalf | FailureStore u64

record race =
  breaker :: CircuitBreaker
  cb_pcs :: "nat \<Rightarrow> cb_pc"
  secs :: u64
  outcomes :: "cb_event list"

definition race_start :: "u64 \<Rightarrow> race" where
  "race_start t = \<lparr>breaker = circuit_breaker_new, cb_pcs = (\<lambda>_. AtRest), secs = t, outcomes = []\<rparr>"

inductive cb_step :: "race \<Rightarrow> race \<Rightarrow> bool" where
  success_count: "cb_pcs s i = AtRest \<Longrightarrow>
    cb_step s (s\<lparr>breaker := (breaker s)\<lparr>failures := 0\<rparr>, cb_pcs := (cb_pcs s)(i := SuccessHalf),
                 outcomes := outcomes s @ [Success]\<rparr>)"
| success_time: "cb_pcs s i = SuccessHalf \<Longrightarrow>
    cb_step s (s\<lparr>breaker := (breaker s)\<lparr>last_failure_time := 0\<rparr>, cb_pcs := (cb_pcs s)(i := AtRest)\<rparr>)"
| failure_count_up: "cb_pcs s i = AtRest \<Longrightarrow>
    cb_step s (s\<lparr>breaker := (breaker s)\<lparr>failures := failures (breaker s) + 1\<rparr>,
                 cb_pcs := (cb_pcs s)(i := if failures (breaker s) + 1 \<ge> FAILURE_THRESHOLD then FailureHalf else AtRest),
                 outcomes := outcomes s @ [Failure (secs s)]\<rparr>)"
| failure_clock: "cb_pcs s i = FailureHalf \<Longrightarrow> cb_step s (s\<lparr>cb_pcs := (cb_pcs s)(i := FailureStore (secs s))\<rparr>)"
| failure_time: "cb_pcs s i = FailureStore now \<Longrightarrow>
    cb_step s (s\<lparr>breaker := (breaker s)\<lparr>last_failure_time := now\<rparr>, cb_pcs := (cb_pcs s)(i := AtRest)\<rparr>)"
| tick: "secs s \<le> t \<Longrightarrow> cb_step s (s\<lparr>secs := t\<rparr>)"

inductive cb_reach :: "u64 \<Rightarrow> race \<Rightarrow> bool" for t0 where
  start: "cb_reach t0 (race_start t0)"
| step: "cb_reach t0 s \<Longrightarrow> cb_step s s' \<Longrightarrow> cb_reach t0 s'"

section \<open>Lemmas\<close>

text \<open>Done without interruption the steps of a thread are the operations of the sequential breaker.\<close>

lemma success_steps:
  assumes "cb_pcs s i = AtRest"
  shows "\<exists>s1 s2. cb_step s s1 \<and> cb_step s1 s2 \<and> breaker s2 = record_success (breaker s) \<and> cb_pcs s2 = cb_pcs s"
proof (intro exI conjI)
  let ?s1 = "s\<lparr>breaker := (breaker s)\<lparr>failures := 0\<rparr>, cb_pcs := (cb_pcs s)(i := SuccessHalf), outcomes := outcomes s @ [Success]\<rparr>"
  show "cb_step s ?s1" using assms by (rule cb_step.success_count)
  show "cb_step ?s1 (?s1\<lparr>breaker := (breaker ?s1)\<lparr>last_failure_time := 0\<rparr>, cb_pcs := (cb_pcs ?s1)(i := AtRest)\<rparr>)"
    by (rule cb_step.success_time) simp
qed (use assms in \<open>simp_all add: record_success_def fun_upd_idem\<close>)

text \<open>What every interleaving keeps: the counter counts, and no time is ahead of the clock.\<close>

definition race_inv :: "race \<Rightarrow> bool" where
  "race_inv s \<longleftrightarrow> failures (breaker s) = of_nat (length (trailing_failures (outcomes s) []))
     \<and> last_failure_time (breaker s) \<le> secs s \<and> (\<forall>i now. cb_pcs s i = FailureStore now \<longrightarrow> now \<le> secs s)"

lemma trailing_failures_append:
  "trailing_failures (evs @ [ev]) ts = (case ev of Success \<Rightarrow> [] | Failure t \<Rightarrow> trailing_failures evs ts @ [t])"
  by (induction evs ts rule: trailing_failures.induct) (simp_all split: cb_event.split)

lemma race_inv_step: "cb_step s s' \<Longrightarrow> race_inv s \<Longrightarrow> race_inv s'"
  by (induction rule: cb_step.induct)
    (auto simp: race_inv_def trailing_failures_append split: if_splits intro: order_trans)

lemma race_inv_reach: "cb_reach t0 s \<Longrightarrow> race_inv s"
proof (induction rule: cb_reach.induct)
  case start
  show ?case by (simp add: race_inv_def race_start_def circuit_breaker_new_def)
qed (rule race_inv_step)

section \<open>Properties\<close>

text \<open>
  C14. Circuit breaker under any interleaving of successes and failures on any number of threads: it is
  Closed exactly while fewer than five failures have been counted since the last success, so no failure
  and no success is lost; and it cannot stay Open: more than thirty seconds after the present it is not,
  whatever the order of the stores was.
\<close>

theorem breaker_counts_under_races:
  assumes "cb_reach t0 s" "length (outcomes s) < 2 ^ 64"
  shows "(cb_state (Some now) (breaker s) = Ret Closed \<longleftrightarrow> length (trailing_failures (outcomes s) []) < 5)
    \<and> (unat (secs s) + 30 < unat now \<longrightarrow> cb_state (Some now) (breaker s) \<noteq> Ret Open)"
proof -
  let ?n = "length (trailing_failures (outcomes s) [])"
  note inv = race_inv_reach [OF assms(1), unfolded race_inv_def]
  have n: "?n < 2 ^ 64" using assms(2) length_trailing_failures [of "outcomes s" "[]"] by simp
  then have c: "failures (breaker s) < FAILURE_THRESHOLD \<longleftrightarrow> ?n < 5"
    using inv by (simp add: FAILURE_THRESHOLD_def threshold_of_nat)
  have "now > last_failure_time (breaker s) + RESET_TIMEOUT_SECS" if "unat (secs s) + 30 < unat now"
  proof -
    have "unat (last_failure_time (breaker s)) \<le> unat (secs s)" using inv by (simp add: word_le_nat_alt)
    moreover have "unat now < 2 ^ 64" using unat_less_pow [of now] by simp
    ultimately show ?thesis
      using that timeout_plus [of "last_failure_time (breaker s)" now] by (simp add: RESET_TIMEOUT_SECS_def)
  qed
  with c show ?thesis by (auto simp: cb_state_def)
qed

text \<open>
  A run in which a success and five failures overlap: the success has reset the counter, five failures
  on another thread open the circuit at second 100, and then the second store of the success arrives.
\<close>

definition five_failures :: "race \<Rightarrow> race" where
  "five_failures s = s\<lparr>breaker := (breaker s)\<lparr>failures := 5, last_failure_time := secs s\<rparr>,
     outcomes := outcomes s @ replicate 5 (Failure (secs s))\<rparr>"

lemma five_failures_reach:
  assumes "cb_reach t0 s" "failures (breaker s) = 0" "cb_pcs s i = AtRest"
  shows "cb_reach t0 (five_failures s)"
proof -
  let ?f = "\<lambda>n s. s\<lparr>breaker := (breaker s)\<lparr>failures := of_nat n\<rparr>, outcomes := outcomes s @ replicate n (Failure (secs s))\<rparr>"
  have four: "cb_reach t0 (?f n s)" if "n \<le> 4" for n
    using that
  proof (induction n)
    case 0
    have "?f 0 s = s" using assms(2) by simp
    with assms(1) show ?case by simp
  next
    case (Suc n)
    then have "(of_nat n :: usize) + 1 = of_nat (Suc n)" "(of_nat (Suc n) :: usize) < 5"
      by (simp_all add: threshold_of_nat del: of_nat_Suc) (simp add: add.commute)
    with cb_step.failure_count_up [of "?f n s" i] assms(3) Suc show ?case
      by (auto simp: FAILURE_THRESHOLD_def replicate_append_same fun_upd_idem dest: cb_reach.step)
  qed
  let ?s4 = "?f 4 s"
  let ?s5 = "?s4\<lparr>breaker := (breaker ?s4)\<lparr>failures := 5\<rparr>, cb_pcs := (cb_pcs s)(i := FailureHalf),
    outcomes := outcomes ?s4 @ [Failure (secs s)]\<rparr>"
  have "cb_step ?s4 ?s5" using cb_step.failure_count_up [of ?s4 i] assms(3) by (simp add: FAILURE_THRESHOLD_def)
  with four [of 4] have "cb_reach t0 ?s5" by (blast intro: cb_reach.step)
  moreover have "cb_step ?s5 (?s5\<lparr>cb_pcs := (cb_pcs s)(i := FailureStore (secs s))\<rparr>)"
    using cb_step.failure_clock [of ?s5 i] by simp
  ultimately have "cb_reach t0 (?s5\<lparr>cb_pcs := (cb_pcs s)(i := FailureStore (secs s))\<rparr>)" by (rule cb_reach.step)
  moreover have "cb_step (?s5\<lparr>cb_pcs := (cb_pcs s)(i := FailureStore (secs s))\<rparr>) (five_failures s)"
    using cb_step.failure_time [of "?s5\<lparr>cb_pcs := (cb_pcs s)(i := FailureStore (secs s))\<rparr>" i "secs s"] assms(3)
    by (cases s) (simp add: five_failures_def fun_upd_idem numeral_eq_Suc)
  ultimately show ?thesis by (rule cb_reach.step)
qed

text \<open>
  C17. An overlapping success can void the open state: there is an interleaving of one success and five
  failures, all of them at second 100 and all threads done, after which five failures stand since the
  last success, so the history prescribes Open until second 130, and yet the breaker is HalfOpen at
  once and lets every request through: the late second store of \<open>record_success\<close> has erased the time.
\<close>

theorem late_success_voids_open_circuit:
  "\<exists>s. cb_reach 100 s \<and> (\<forall>i. cb_pcs s i = AtRest) \<and> secs s = 100
     \<and> spec_state 100 (trailing_failures (outcomes s) []) = Open
     \<and> cb_state (Some 100) (breaker s) = Ret HalfOpen"
proof -
  let ?s1 = "(race_start 100)\<lparr>breaker := (breaker (race_start 100))\<lparr>failures := 0\<rparr>,
      cb_pcs := (cb_pcs (race_start 100))(0 := SuccessHalf), outcomes := outcomes (race_start 100) @ [Success]\<rparr>"
  have s1: "cb_reach 100 ?s1"
    by (rule cb_reach.step [OF cb_reach.start], rule cb_step.success_count) (simp add: race_start_def)
  let ?s2 = "five_failures ?s1"
  have s2: "cb_reach 100 ?s2" by (rule five_failures_reach [OF s1, of 1]) (simp_all add: race_start_def)
  let ?s3 = "?s2\<lparr>breaker := (breaker ?s2)\<lparr>last_failure_time := 0\<rparr>, cb_pcs := (cb_pcs ?s2)(0 := AtRest)\<rparr>"
  have "cb_reach 100 ?s3"
    by (rule cb_reach.step [OF s2], rule cb_step.success_time) (simp add: five_failures_def)
  moreover have "cb_state (Some 100) (breaker ?s3) = Ret HalfOpen"
    by (simp add: five_failures_def cb_defs)
  moreover have "spec_state 100 (trailing_failures (outcomes ?s3) []) = Open" "secs ?s3 = 100" "\<forall>i. cb_pcs ?s3 i = AtRest"
    by (simp_all add: five_failures_def race_start_def spec_state_def numeral_eq_Suc)
  ultimately show ?thesis by blast
qed

theorem breaker_counts_under_races_witness:
  "cb_reach 100 (five_failures (race_start 100))
    \<and> cb_state (Some 130) (breaker (five_failures (race_start 100))) \<noteq> Ret Closed
    \<and> cb_state (Some 131) (breaker (five_failures (race_start 100))) \<noteq> Ret Open"
proof -
  have r: "cb_reach 100 (five_failures (race_start 100))"
    by (rule five_failures_reach [OF cb_reach.start, of _ 0]) (simp_all add: race_start_def circuit_breaker_new_def)
  have o: "outcomes (five_failures (race_start 100)) = replicate 5 (Failure 100)" "secs (five_failures (race_start 100)) = 100"
    by (simp_all add: five_failures_def race_start_def)
  have t: "length (trailing_failures (replicate 5 (Failure 100)) []) = 5" by (simp add: numeral_eq_Suc)
  show ?thesis
    using r breaker_counts_under_races [OF r, of 130] breaker_counts_under_races [OF r, of 131] by (simp add: o t)
qed

end
