(* ===== verification/Unit_Tests.thy ===== *)
theory Unit_Tests
  imports Server Tls
begin

text \<open>
  The test modules of the sources (\<open>mod tests\<close> in \<open>circuit_breaker.rs\<close>, \<open>ewma.rs\<close>, \<open>selector.rs\<close>,
  \<open>ban_manager.rs\<close>, \<open>mock.rs\<close>, \<open>tls.rs\<close>, \<open>telemetry.rs\<close>, \<open>server.rs\<close>), translated over the model. A test
  passes when it is \<open>Ret ()\<close>; a failed assertion, a failed \<open>unwrap\<close> and an index out of bounds panic. What
  a test reads from outside, the clock and the ticks of a task, is its argument.
\<close>

definition asserts :: "bool list \<Rightarrow> unit outcome" where
  "asserts bs = (if list_all id bs then Ret () else Panic)"

lemma asserts_Ret [simp]: "asserts bs = Ret () \<longleftrightarrow> list_all id bs"
  by (simp add: asserts_def)

text \<open>Indexing with \<open>[0]\<close>.\<close>

fun index_first :: "'a list \<Rightarrow> 'a outcome" where
  "index_first [] = Panic"
| "index_first (x # _) = Ret x"

section \<open>The circuit breaker\<close>

definition test_circuit_breaker_initial_state_is_closed :: "clock \<Rightarrow> clock \<Rightarrow> unit outcome" where
  "test_circuit_breaker_initial_state_is_closed clk clk' =
     (let cb = circuit_breaker_new
      in obind (cb_state clk cb) (\<lambda>st. obind (is_open clk' cb) (\<lambda>op.
           asserts [st = Closed, failure_count cb = 0, \<not> op])))"

text \<open>The loop of the second test: call \<open>i\<close> reads the clock \<open>clk i\<close>, and \<open>state\<close> after it \<open>clk' i\<close>.\<close>

primrec trip_loop :: "nat \<Rightarrow> (nat \<Rightarrow> clock) \<Rightarrow> (nat \<Rightarrow> clock) \<Rightarrow> CircuitBreaker \<Rightarrow> CircuitBreaker outcome" where
  "trip_loop 0 clk clk' cb = Ret cb"
| "trip_loop (Suc n) clk clk' cb =
     obind (trip_loop n clk clk' cb) (\<lambda>cb. obind (record_failure (clk n) cb) (\<lambda>cb.
       obind (cb_state (clk' n) cb) (\<lambda>st. obind (asserts [st = Closed]) (\<lambda>_. Ret cb))))"

definition test_circuit_breaker_trips_to_open_after_threshold ::
  "(nat \<Rightarrow> clock) \<Rightarrow> (nat \<Rightarrow> clock) \<Rightarrow> clock \<Rightarrow> clock \<Rightarrow> clock \<Rightarrow> unit outcome" where
  "test_circuit_breaker_trips_to_open_after_threshold clk clk' last_clk state_clk open_clk =
     obind (trip_loop (unat (FAILURE_THRESHOLD - 1)) clk clk' circuit_breaker_new) (\<lambda>cb.
       obind (record_failure last_clk cb) (\<lambda>cb.
         obind (cb_state state_clk cb) (\<lambda>st. obind (asserts [st = Open]) (\<lambda>_.
           obind (is_open open_clk cb) (\<lambda>op. asserts [op, failure_count cb = FAILURE_THRESHOLD])))))"

primrec failure_loop :: "nat \<Rightarrow> (nat \<Rightarrow> clock) \<Rightarrow> CircuitBreaker \<Rightarrow> CircuitBreaker outcome" where
  "failure_loop 0 clk cb = Ret cb"
| "failure_loop (Suc n) clk cb = obind (failure_loop n clk cb) (record_failure (clk n))"

definition test_circuit_breaker_resets_on_success :: "(nat \<Rightarrow> clock) \<Rightarrow> clock \<Rightarrow> clock \<Rightarrow> clock \<Rightarrow> unit outcome" where
  "test_circuit_breaker_resets_on_success clk state_clk state_clk' open_clk =
     obind (failure_loop (unat FAILURE_THRESHOLD) clk circuit_breaker_new) (\<lambda>cb.
       obind (cb_state state_clk cb) (\<lambda>st. obind (asserts [st = Open]) (\<lambda>_.
         let cb' = record_success cb
         in obind (cb_state state_clk' cb') (\<lambda>st'. obind (is_open open_clk cb') (\<lambda>op.
              asserts [st' = Closed, failure_count cb' = 0, \<not> op])))))"

lemma initial_state_test: "test_circuit_breaker_initial_state_is_closed clk clk' = Ret ()"
  by (simp add: test_circuit_breaker_initial_state_is_closed_def cb_defs is_open_def failure_count_def)

lemma four: "4 = Suc (Suc (Suc (Suc 0)))"
  by simp

lemma four_failures: "failure_loop 4 clk circuit_breaker_new = Ret \<lparr>failures = 4, last_failure_time = 0\<rparr>"
  unfolding four by (simp add: cb_defs Let_def word_le_nat_alt)

lemma four_trips: "trip_loop 4 clk clk' circuit_breaker_new = Ret \<lparr>failures = 4, last_failure_time = 0\<rparr>"
  unfolding four by (simp add: cb_defs asserts_def Let_def word_le_nat_alt word_less_nat_alt)

text \<open>
  When the breaker's own tests pass. The test of the threshold passes exactly when the fifth
  failure and the two assertions after it read the clock (it is past the epoch) and neither
  assertion comes more than 30 seconds after the failure; so it can only fail on a machine that
  stalls for half a minute. The first four failures and the states after them never depend on the
  clock, and for the test of the reset the same holds with one assertion.
\<close>

lemma breaker_tests_depend_on_clock_only:
  "(test_circuit_breaker_trips_to_open_after_threshold clk clk' last_clk state_clk open_clk = Ret () \<longleftrightarrow>
      (\<exists>t u v. last_clk = Some t \<and> state_clk = Some u \<and> open_clk = Some v \<and> u \<le> t + 30 \<and> v \<le> t + 30))
   \<and> (test_circuit_breaker_resets_on_success clk2 state_clk2 state_clk2' open_clk2 = Ret () \<longleftrightarrow>
      (\<exists>t u. clk2 4 = Some t \<and> state_clk2 = Some u \<and> u \<le> t + 30))"
proof (rule conjI)
  have n: "unat (FAILURE_THRESHOLD - 1) = 4" "unat FAILURE_THRESHOLD = Suc 4" by (simp_all add: FAILURE_THRESHOLD_def)
  show "test_circuit_breaker_trips_to_open_after_threshold clk clk' last_clk state_clk open_clk = Ret () \<longleftrightarrow>
      (\<exists>t u v. last_clk = Some t \<and> state_clk = Some u \<and> open_clk = Some v \<and> u \<le> t + 30 \<and> v \<le> t + 30)"
    unfolding test_circuit_breaker_trips_to_open_after_threshold_def n four_trips
    by (cases last_clk; cases state_clk; cases open_clk)
      (auto simp: cb_defs is_open_def failure_count_def asserts_def not_less)
  show "test_circuit_breaker_resets_on_success clk2 state_clk2 state_clk2' open_clk2 = Ret () \<longleftrightarrow>
      (\<exists>t u. clk2 4 = Some t \<and> state_clk2 = Some u \<and> u \<le> t + 30)"
    unfolding test_circuit_breaker_resets_on_success_def n failure_loop.simps four_failures
    by (cases "clk2 4"; cases state_clk2) (auto simp: cb_defs is_open_def failure_count_def asserts_def not_less)
qed

section \<open>The latency tracker\<close>

text \<open>\<open>==\<close>, \<open><=\<close> and \<open>>\<close> on \<open>f64\<close> are those of \<open>partial_cmp\<close>.\<close>

definition f64_eq :: "f64 \<Rightarrow> f64 \<Rightarrow> bool" where
  "f64_eq x y \<longleftrightarrow> partial_cmp x y = Some Equal"


definition test_peak_ewma_instant_peak_tracking :: "unit outcome" where
  "test_peak_ewma_instant_peak_tracking =
     asserts [f64_eq (get_ewma (observe_latency (peak_ewma_new (f64_of_nat 50) f64_half) (f64_of_nat 500))) (f64_of_nat 500)]"

definition test_peak_ewma_graceful_decay :: "unit outcome" where
  "test_peak_ewma_graceful_decay =
     (let e1 = observe_latency (peak_ewma_new (f64_of_nat 100) f64_half) (f64_of_nat 50);
          e2 = observe_latency e1 (f64_of_nat 50)
      in asserts [f64_eq (get_ewma e1) (f64_of_nat 75), f64_eq (get_ewma e2) (F64 0x404F400000000000)])"

definition test_active_request_guard :: "unit outcome" where
  "test_active_request_guard =
     (let e = peak_ewma_new (f64_of_nat 10) f64_half; e' = increment_active e; e'' = drop_guard e'
      in asserts [active_requests e = 0, active_requests e' = 1, f64_eq (calculate_score e') (f64_of_nat 22),
           active_requests e'' = 0, f64_eq (calculate_score e'') (f64_of_nat 11)])"



lemma f64_eq_refl [simp]: "f64_eq x x \<longleftrightarrow> \<not> is_nan x"
  by (simp add: f64_eq_def partial_cmp_def)


lemma not_nan_of_nat [simp]: "n \<le> 2 ^ 53 \<Longrightarrow> \<not> is_nan (f64_of_nat n)"
  using fval_of_nat by blast

lemma instant_peak_test: "test_peak_ewma_instant_peak_tracking = Ret ()"
  by (simp add: test_peak_ewma_instant_peak_tracking_def get_ewma_observe_new next_ewma_def f64_gt_of_nat)

lemma active_guard_test: "test_active_request_guard = Ret ()"
  by (simp add: test_active_request_guard_def ewma_defs calculate_score_def get_ewma_def f64_one_def f64_of_u64_def f64_add_of_nat f64_mul_of_nat)

text \<open>One step of decay by a half, in units, when both parts are large enough to be halved exactly.\<close>

lemma decay_half_sum:
  assumes "view r = Fin False u" "view c = Fin False v" "2 ^ 53 \<le> u" "2 ^ 53 \<le> v" "u \<le> v"
  shows "next_ewma f64_half c r = f64_round False (u div 2 + v div 2) 1"
  using assms f64_add_nn [OF mul_half_exact(1) [OF assms(1,3)] mul_half_exact(1) [OF assms(2,4)]]
  by (simp add: next_ewma_def one_minus_half f64_gt_nn [OF assms(1,2)])

lemma half_one_u: "n * one_u div 2 = n * half_u"
  by (simp add: one_u_half)

lemma units_big: "0 < n \<Longrightarrow> 2 ^ 53 \<le> n * one_u"
  using one_u_big by (metis One_nat_def Suc_leI mult_1 mult_le_mono1 order_trans)

lemma decay_100_50: "next_ewma f64_half (f64_of_nat 100) (f64_of_nat 50) = f64_of_nat 75"
  using decay_half_sum [OF view_of_nat view_of_nat, of 50 100] units_big [of 50] units_big [of 100]
  by (simp add: half_one_u f64_of_nat_def) (simp add: one_u_half algebra_simps)

lemma view_62_5: "view (F64 0x404F400000000000) = Fin False (125 * half_u)"
proof -
  have "view (F64 0x404F400000000000) = Fin False (0x1F400000000000 * 2 ^ 1027)" by (rule view_lit) simp_all
  moreover have "0x1F400000000000 * 2 ^ 1027 = 125 * half_u"
    unfolding half_u_def by (simp add: power_add [symmetric])
  ultimately show ?thesis by simp
qed

lemma decay_75_50: "next_ewma f64_half (f64_of_nat 75) (f64_of_nat 50) = F64 0x404F400000000000"
proof -
  have "next_ewma f64_half (f64_of_nat 75) (f64_of_nat 50) = f64_round False (50 * half_u + 75 * half_u) 1"
    using decay_half_sum [OF view_of_nat view_of_nat, of 50 75] units_big [of 50] units_big [of 75] by (simp add: half_one_u)
  also have "\<dots> = f64_round False (125 * half_u * 1) 1" by simp
  also have "\<dots> = F64 0x404F400000000000" by (rule f64_round_exact [OF view_62_5]) simp
  finally show ?thesis .
qed

lemma graceful_decay_test: "test_peak_ewma_graceful_decay = Ret ()"
proof -
  have n: "\<not> is_nan (F64 0x404F400000000000)" using fval_Fin [OF view_62_5] by simp
  let ?e = "observe_latency (peak_ewma_new (f64_of_nat 100) f64_half) (f64_of_nat 50)"
  have "get_ewma ?e = f64_of_nat 75" by (simp only: get_ewma_observe_new decay_100_50)
  moreover have "decay_alpha ?e = f64_half" by (simp add: frame_simps peak_ewma_new_def)
  ultimately have "get_ewma (observe_latency ?e (f64_of_nat 50)) = F64 0x404F400000000000"
    by (simp only: get_ewma_observe [of ?e] decay_75_50)
  with n \<open>get_ewma ?e = f64_of_nat 75\<close> show ?thesis
    by (simp only: test_peak_ewma_graceful_decay_def Let_def asserts_Ret) simp
qed


section \<open>The selectors\<close>

definition test_select_best_backend_returns_lowest_ewma_score :: "clock \<Rightarrow> unit outcome" where
  "test_select_best_backend_returns_lowest_ewma_score clk =
     (let h0 = [backend_new 1 (SocketAddr (V4 127 0 0 1) 8080), backend_new 2 (SocketAddr (V4 127 0 0 1) 8081)];
          h1 = modify 0 (\<lambda>b. b\<lparr>b_ewma := observe_latency (b_ewma b) (f64_of_nat 200)\<rparr>) h0;
          h2 = modify 1 (\<lambda>b. b\<lparr>b_ewma := observe_latency (b_ewma b) (f64_of_nat 20)\<rparr>) h1
      in obind (select_best_backend clk h2 (routing_table_new [0, 1])) (\<lambda>r. obind (unwrap r) (\<lambda>selected.
           asserts [backend_id (h2 ! selected) = 2])))"

definition test_select_healthy_backends_filters_unhealthy_and_sorts :: "clock \<Rightarrow> unit outcome" where
  "test_select_healthy_backends_filters_unhealthy_and_sorts clk =
     (let h0 = [backend_new 1 (SocketAddr (V4 127 0 0 1) 8080), backend_new 2 (SocketAddr (V4 127 0 0 1) 8081)];
          h1 = modify 0 (set_healthy False) h0;
          h2 = modify 1 (\<lambda>b. b\<lparr>b_ewma := observe_latency (b_ewma b) (f64_of_nat 15)\<rparr>) h1
      in obind (select_healthy_backends clk h2 (routing_table_new [0, 1])) (\<lambda>healthy.
           obind (index_first healthy) (\<lambda>b. asserts [length healthy = 1, backend_id (h2 ! b) = 2])))"

section \<open>The limiter and the ban manager\<close>

definition test_mock_xdp_limiter_lifecycle :: "unit outcome" where
  "test_mock_xdp_limiter_lifecycle =
     (let ip = V4 192 168 1 100; l = mock_new; (r1, l1) = mock_block_ip l ip; (r2, l2) = mock_unblock_ip l1 ip
      in obind (asserts [\<not> mock_is_ip_blocked l ip, mock_blocked_ip_count l = 0]) (\<lambda>_.
         obind (expect r1) (\<lambda>_. obind (asserts [mock_is_ip_blocked l1 ip, mock_blocked_ip_count l1 = 1]) (\<lambda>_.
         obind (expect r2) (\<lambda>_. asserts [\<not> mock_is_ip_blocked l2 ip, mock_blocked_ip_count l2 = 0])))))"

text \<open>
  The life of a ban: the instants of the ban and of the reads, and the ticks of the sweeper that fall
  into the sleep of the test.
\<close>

definition test_ban_manager_bpf_map_lifecycle_and_sweeper ::
  "Instant \<Rightarrow> Instant \<Rightarrow> Instant \<Rightarrow> (Instant \<times> IpAddr list) list \<Rightarrow> Instant \<Rightarrow> unit outcome" where
  "test_ban_manager_bpf_map_lifecycle_and_sweeper t0 t1 t2 ticks t3 =
     (let target_ip = V4 203 0 113 42; m0 = ban_manager_new (Some mock_new);
          m1 = ban_ip mock_xdp t1 target_ip (from_millis 100) m0; m2 = spawn_sweeper mock_xdp ticks m1
      in asserts [\<not> is_ip_banned mock_xdp t0 target_ip m0, \<not> kernel_blocks mock_xdp m0 target_ip,
           is_ip_banned mock_xdp t2 target_ip m1, kernel_blocks mock_xdp m1 target_ip,
           \<not> is_ip_banned mock_xdp t3 target_ip m2, \<not> kernel_blocks mock_xdp m2 target_ip])"

lemma mock_lifecycle_test: "test_mock_xdp_limiter_lifecycle = Ret ()"
  by (simp add: test_mock_xdp_limiter_lifecycle_def mock_defs asserts_def)

lemma closed_available: "failures (circuit_breaker (h ! b)) = 0 \<Longrightarrow> available clk h b = Ret (healthy (h ! b))"
  by (simp add: available_def is_healthy_def cb_defs)

lemma filter_closed_available:
  "\<forall>b \<in> set bs. failures (circuit_breaker (h ! b)) = 0 \<Longrightarrow> ofilter (available clk h) bs = Ret (filter (\<lambda>b. healthy (h ! b)) bs)"
  by (rule ofilter_Ret) (simp add: closed_available)

lemma lowest_score_test: "test_select_best_backend_returns_lowest_ewma_score clk = Ret ()"
proof -
  have h: "modify 1 (\<lambda>b. b\<lparr>b_ewma := observe_latency (b_ewma b) (f64_of_nat 20)\<rparr>)
      (modify 0 (\<lambda>b. b\<lparr>b_ewma := observe_latency (b_ewma b) (f64_of_nat 200)\<rparr>)
        [backend_new 1 (SocketAddr (V4 127 0 0 1) 8080), backend_new 2 (SocketAddr (V4 127 0 0 1) 8081)]) = two_backends"
    by (simp add: modify_def two_backends_def) (simp add: backend_new_def)
  have b: "\<forall>b \<in> set [0, 1]. failures (circuit_breaker (two_backends ! b)) = 0" "healthy (two_backends ! 0)" "healthy (two_backends ! 1)"
    "backend_id (two_backends ! 1) = 2"
    by (simp_all add: two_backends_def backend_new_def cb_defs)
  have "select_best_backend clk two_backends (routing_table_new [0, 1]) = Ret (Some 1)"
    using b(2,3) filter_closed_available [OF b(1)]
    by (simp add: select_best_backend_def snapshot_def routing_table_new_def score_cmp_def two_backends_scores [simplified] cmp_of_nat)
  then show ?thesis unfolding test_select_best_backend_returns_lowest_ewma_score_def h Let_def by (simp add: b(4) [simplified])
qed

lemma healthy_sorted_test: "test_select_healthy_backends_filters_unhealthy_and_sorts clk = Ret ()"
proof -
  define h where "h = modify 1 (\<lambda>b. b\<lparr>b_ewma := observe_latency (b_ewma b) (f64_of_nat 15)\<rparr>) (modify 0 (set_healthy False)
      [backend_new 1 (SocketAddr (V4 127 0 0 1) 8080), backend_new 2 (SocketAddr (V4 127 0 0 1) 8081)])"
  have b: "\<forall>b \<in> set [0, 1]. failures (circuit_breaker (h ! b)) = 0" "\<not> healthy (h ! 0)" "healthy (h ! 1)" "backend_id (h ! 1) = 2"
    by (simp_all add: h_def modify_def set_healthy_def backend_new_def cb_defs)
  have "select_healthy_backends clk h (routing_table_new [0, 1]) = Ret [1]"
    using b(2,3) filter_closed_available [OF b(1)]
    by (simp add: select_healthy_backends_def snapshot_def routing_table_new_def)
  then show ?thesis
    unfolding test_select_healthy_backends_filters_unhealthy_and_sorts_def h_def [symmetric] Let_def by (simp add: b(4) [simplified])
qed

text \<open>The sweeper on a manager with a single ban.\<close>

lemma sweep_one_ban:
  fixes ip :: IpAddr
  defines "banned e \<equiv> \<lparr>limiter = Some {ip}, banned_ips = [ip \<mapsto> e]\<rparr>" and "clear \<equiv> ban_manager_new (Some mock_new)"
  shows "foldl (\<lambda>b (now, order). sweep mock_xdp now order b) clear ticks = clear"
    and "foldl (\<lambda>b (now, order). sweep mock_xdp now order b) (banned e) ticks
      = (if \<exists>(now, order) \<in> set ticks. e \<le> now \<and> ip \<in> set order then clear else banned e)"
proof -
  have c: "sweep mock_xdp now order clear = clear" for now order
    unfolding sweep_def by (induction order) (auto simp: retain_entry_def clear_def ban_manager_new_def)
  have b: "sweep mock_xdp now order (banned e) = (if e \<le> now \<and> ip \<in> set order then clear else banned e)" for now order
  proof (induction order)
    case (Cons j order)
    have "retain_entry mock_xdp now (banned e) j = (if e \<le> now \<and> j = ip then clear else banned e)"
      by (auto simp: retain_entry_def clear_def banned_def ban_manager_new_def mock_defs)
    then have "sweep mock_xdp now (j # order) (banned e) = sweep mock_xdp now order (if e \<le> now \<and> j = ip then clear else banned e)"
      by (simp add: sweep_def)
    with Cons.IH c show ?case by auto
  qed (simp add: sweep_def)
  show c': "foldl (\<lambda>b (now, order). sweep mock_xdp now order b) clear ticks = clear" for ticks
    by (induction ticks) (auto simp: c)
  show "foldl (\<lambda>b (now, order). sweep mock_xdp now order b) (banned e) ticks
      = (if \<exists>(now, order) \<in> set ticks. e \<le> now \<and> ip \<in> set order then clear else banned e)"
    by (induction ticks) (simp_all add: b c' split: prod.splits)
qed

text \<open>
  The test of the ban manager passes exactly when some tick of the sweeper during the sleep finds the
  ban expired, whatever the clock shows at its other reads: the kernel's answer comes first.
\<close>

lemma ban_lifecycle_test:
  "test_ban_manager_bpf_map_lifecycle_and_sweeper t0 t1 t2 ticks t3 = Ret () \<longleftrightarrow>
     (\<exists>(now, order) \<in> set ticks. t1 + from_millis 100 \<le> now \<and> V4 203 0 113 42 \<in> set order)"
proof -
  let ?ip = "V4 203 0 113 42" and ?m0 = "ban_manager_new (Some mock_new)" and ?e = "t1 + from_millis 100"
  have b: "ban_ip mock_xdp t1 ?ip (from_millis 100) ?m0 = \<lparr>limiter = Some {?ip}, banned_ips = [?ip \<mapsto> ?e]\<rparr>"
    by (simp add: ban_defs mock_defs)
  have s: "spawn_sweeper mock_xdp ticks \<lparr>limiter = Some {?ip}, banned_ips = [?ip \<mapsto> ?e]\<rparr>
      = (if \<exists>(now, order) \<in> set ticks. ?e \<le> now \<and> ?ip \<in> set order then ?m0 else \<lparr>limiter = Some {?ip}, banned_ips = [?ip \<mapsto> ?e]\<rparr>)"
    by (simp add: spawn_sweeper_def sweep_one_ban(2))
  have m: "\<not> kernel_blocks mock_xdp ?m0 ?ip" "\<not> is_ip_banned mock_xdp t ?ip ?m0"
    "kernel_blocks mock_xdp \<lparr>limiter = Some {?ip}, banned_ips = [?ip \<mapsto> ?e]\<rparr> ?ip"
    "is_ip_banned mock_xdp t ?ip \<lparr>limiter = Some {?ip}, banned_ips = [?ip \<mapsto> ?e]\<rparr>" for t
    by (simp_all add: kernel_blocks_def is_ip_banned_def ban_manager_new_def mock_defs)
  show ?thesis
    unfolding test_ban_manager_bpf_map_lifecycle_and_sweeper_def Let_def b s by (simp add: m)
qed

section \<open>Certificates\<close>

text \<open>Certificates and keys are named by the bytes the tests give them.\<close>

definition dummy_cert :: "string \<Rightarrow> string" where
  "dummy_cert i = i"

definition dummy_key :: "string \<Rightarrow> string" where
  "dummy_key i = i"

definition first_cert :: "('c, 'k) CertKeyBundle option \<Rightarrow> 'c outcome" where
  "first_cert r = obind (unwrap r) (\<lambda>b. index_first (certs b))"

definition test_sni_manager_exact_and_wildcard_matching :: "unit outcome" where
  "test_sni_manager_exact_and_wildcard_matching =
     (let m0 = sni_new;
          m1 = register_domain ''example.com'' [dummy_cert ''cert_example_com''] (dummy_key ''key_example_com'') m0;
          m2 = register_domain ''*.test.org'' [dummy_cert ''cert_wildcard''] (dummy_key ''key_wildcard'') m1;
          res1 = get_certificate ''example.com'' m2; res_case = get_certificate ''EXAMPLE.COM'' m2;
          res2 = get_certificate ''sub.test.org'' m2
      in obind (first_cert res1) (\<lambda>c1. obind (asserts [c1 = ''cert_example_com'', res_case \<noteq> None]) (\<lambda>_.
         obind (first_cert res2) (\<lambda>c2. asserts [c2 = ''cert_wildcard'', get_certificate ''unknown.net'' m2 = None]))))"

definition test_sni_manager_default_fallback :: "unit outcome" where
  "test_sni_manager_default_fallback =
     (let manager = with_default [dummy_cert ''default_cert''] (dummy_key ''default_key'')
      in obind (first_cert (get_certificate ''anydomain.com'' manager)) (\<lambda>c. asserts [c = ''default_cert'']))"

definition test_sni_manager_hot_reload_and_removal :: "unit outcome" where
  "test_sni_manager_hot_reload_and_removal =
     (let m1 = register_domain ''app.domain.com'' [dummy_cert ''v1''] (dummy_key ''v1_key'') sni_new;
          m2 = register_domain ''app.domain.com'' [dummy_cert ''v2''] (dummy_key ''v2_key'') m1;
          (removed, m3) = remove_domain ''app.domain.com'' m2
      in obind (first_cert (get_certificate ''app.domain.com'' m1)) (\<lambda>c1. obind (asserts [c1 = ''v1'']) (\<lambda>_.
         obind (first_cert (get_certificate ''app.domain.com'' m2)) (\<lambda>c2.
         asserts [c2 = ''v2'', removed, get_certificate ''app.domain.com'' m3 = None]))))"

lemmas sni_test_defs = first_cert_def sni_new_def register_domain_def remove_domain_def get_certificate_def
  wildcard_of_def bundle_new_def with_default_def set_default_def dummy_cert_def asserts_def

lemma lowercase_names:
  "to_lowercase ''EXAMPLE.COM'' = ''example.com''" "to_lowercase ''example.com'' = ''example.com''" "to_lowercase ''*.test.org'' = ''*.test.org''"
  "to_lowercase ''sub.test.org'' = ''sub.test.org''" "to_lowercase ''unknown.net'' = ''unknown.net''"
  "to_lowercase ''anydomain.com'' = ''anydomain.com''" "to_lowercase ''app.domain.com'' = ''app.domain.com''"
  by code_simp+

section \<open>Telemetry\<close>

definition test_record_proxy_ingress_metric :: "'tr Tracing \<Rightarrow> 'tr Tracing" where
  "test_record_proxy_ingress_metric g =
     record_proxy_ingress_metric ''/api/v1/stream'' 404 (record_proxy_ingress_metric ''/api/v1/health'' 200 g)"

definition test_w3c_traceparent_parsing :: "unit outcome" where
  "test_w3c_traceparent_parsing =
     obind (unwrap (parse_w3c_traceparent ''00-4bf92f3577b34da6a3ce929d0e0e4736-00f067aa0ba902b7-01'')) (\<lambda>parsed.
       asserts [version parsed = ''00'', trace_id parsed = ''4bf92f3577b34da6a3ce929d0e0e4736'',
         parent_id parsed = ''00f067aa0ba902b7'', trace_flags parsed = ''01'',
         parse_w3c_traceparent ''00-short-id-01'' = None])"

text \<open>This test injects an empty context and asserts nothing; \<open>inject\<close> is the W3C propagator.\<close>

definition test_trace_context_injection :: "HttpCrate \<Rightarrow> ('cx \<Rightarrow> (string \<times> string) list) \<Rightarrow> 'cx \<Rightarrow> unit outcome" where
  "test_trace_context_injection H inject empty_cx =
     (let headers = inject_trace_context (valid_name H) (valid_value H) inject empty_cx (\<lambda>_. []) in Ret ())"

section \<open>AI metadata\<close>

text \<open>\<open>Request::builder().header(k, v)\<close> appends a value; method and target have the builder's defaults.\<close>

definition request_with_headers :: "(string \<times> string) list \<Rightarrow> Request" where
  "request_with_headers hs = \<lparr>http_method = ''GET'', path_and_query = Some ''/'', uri = ''/'',
     req_headers = foldl (\<lambda>h (k, v). h(to_lowercase k := h (to_lowercase k) @ [v])) (\<lambda>_. []) hs\<rparr>"

text \<open>This test builds a request, which fails on an invalid target, and asserts nothing.\<close>

definition test_forward_request_routes_to_9090 :: "HttpCrate \<Rightarrow> unit outcome" where
  "test_forward_request_routes_to_9090 H =
     obind (expect (if valid_uri H ''/'' then Inr (request_with_headers []) else Inl ''invalid uri'')) (\<lambda>_. Ret ())"

definition test_extract_ai_metadata :: "HttpCrate \<Rightarrow> unit outcome" where
  "test_extract_ai_metadata H =
     (let req = request_with_headers [(''x-ai-model'', ''gpt-4''), (''x-ai-estimated-tokens'', ''150''), (''x-ai-semantic-hash'', ''abcdef123'')]
      in obind (unwrap (extract_ai_metadata H req)) (\<lambda>md.
           asserts [model md = ''gpt-4'', estimated_tokens md = 150, semantic_hash md = Some ''abcdef123'']))"

lemma sni_tests:
  "test_sni_manager_exact_and_wildcard_matching = Ret ()" "test_sni_manager_default_fallback = Ret ()"
  "test_sni_manager_hot_reload_and_removal = Ret ()"
  by (simp_all add: test_sni_manager_exact_and_wildcard_matching_def test_sni_manager_default_fallback_def
      test_sni_manager_hot_reload_and_removal_def sni_test_defs lowercase_names)

lemma traceparent_test: "test_w3c_traceparent_parsing = Ret ()"
  by (simp add: test_w3c_traceparent_parsing_def parse_w3c_traceparent_def)

text \<open>\<open>HeaderValue::to_str\<close> succeeds on visible ASCII, spaces and tabs.\<close>

definition visible_ascii :: "char \<Rightarrow> bool" where
  "visible_ascii c \<longleftrightarrow> 32 \<le> (of_char c :: nat) \<and> (of_char c :: nat) < 127 \<or> (of_char c :: nat) = 9"

lemma ai_metadata_test: "test_extract_ai_metadata (H\<lparr>to_str_ok := list_all visible_ascii\<rparr>) = Ret ()"
  by (simp add: test_extract_ai_metadata_def request_with_headers_def extract_ai_metadata_def header_str_def header_get_def
      to_lowercase_def lower_char_def parse_u64_def strip_plus_def to_digit_def visible_ascii_def)

text \<open>
  The unit tests of the repository pass on the model: those of the tracker, the selectors, the
  mock limiter, the certificates, the trace header and the metadata always, whatever the clock
  shows; the one of the ban manager exactly when a tick of the sweeper during the sleep visits the
  address after its ban has expired; and the one of the ingress log records its two
  lines if a subscriber is installed, and nothing otherwise.
\<close>

lemma unit_tests_pass:
  "list_all (\<lambda>t. t = Ret ())
     [test_circuit_breaker_initial_state_is_closed clk clk', test_peak_ewma_instant_peak_tracking,
      test_peak_ewma_graceful_decay, test_active_request_guard,
      test_select_best_backend_returns_lowest_ewma_score clk, test_select_healthy_backends_filters_unhealthy_and_sorts clk,
      test_mock_xdp_limiter_lifecycle, test_sni_manager_exact_and_wildcard_matching, test_sni_manager_default_fallback,
      test_sni_manager_hot_reload_and_removal, test_w3c_traceparent_parsing,
      test_extract_ai_metadata (H\<lparr>to_str_ok := list_all visible_ascii\<rparr>)]
   \<and> (test_ban_manager_bpf_map_lifecycle_and_sweeper t0 t1 t2 ticks t3 = Ret () \<longleftrightarrow>
        (\<exists>now order. (now, order) \<in> set ticks \<and> t1 + from_millis 100 \<le> now \<and> V4 203 0 113 42 \<in> set order))
   \<and> ingress_log (test_record_proxy_ingress_metric g) = ingress_log g
        @ (if subscriber g = None then [] else [(''/api/v1/health'', 200), (''/api/v1/stream'', 404)])"
  using initial_state_test instant_peak_test graceful_decay_test active_guard_test lowest_score_test healthy_sorted_test
    mock_lifecycle_test sni_tests traceparent_test ai_metadata_test ban_lifecycle_test [of t0 t1 t2 ticks t3]
  by (auto simp: test_record_proxy_ingress_metric_def record_proxy_ingress_metric_def)

end
