(* ===== verification/Spec2Isabelle.thy ===== *)
theory Spec2Isabelle
  imports Limits Drain Control Process Trace Breaker_Race Unit_Tests
begin

text \<open>
  Verification of Vortex Proxy, a reverse proxy in Rust (the workspace under \<open>src/\<close>): a data plane that
  accepts connections, limits, routes and forwards requests, a control plane that reconfigures it,
  and a kernel packet filter that drops banned clients. The theories translate the program's own
  logic into executable definitions and prove what makes it correct.

  \<^bold>\<open>Parts of the program and the theories that model them\<close>

  \<^item> \<open>Prelude\<close>, \<open>Float64\<close>, \<open>Text\<close>, \<open>Comparators\<close>: Rust's machine integers as words, code that may panic
    (\<open>outcome\<close>), Rust's \<open>f64\<close> bit for bit (IEEE binary64, round to nearest even, values counted in
    units of \<open>2 ^ -1074\<close>), decimal numbers, splitting and letter case of strings, and
    \<open>Iterator::min_by\<close> and \<open>slice::sort_by\<close> under a comparison that may answer \<open>Equal\<close> for NaN.
  \<^item> \<open>Ewma\<close> (\<open>vortex-core/src/load_balancer/ewma.rs\<close>): the latency average and the routing score. The
    compare-and-swap loop appears three times: run to its end alone, run against a script of
    interference, and as a step relation over any number of threads. Shown: bounds of every history
    under rounding, linearizability, lock-freedom, order of scores.
  \<^item> \<open>Circuit_Breaker\<close> (\<open>domain/circuit_breaker.rs\<close>): refined to the history of outcomes. \<open>Breaker_Race\<close> has
    any number of threads between the two stores of each operation: no outcome is lost and the
    circuit cannot stay open, but a late success can void it.
  \<^item> \<open>Backend\<close>, \<open>Routing\<close> (\<open>domain/backend.rs\<close>, \<open>ai_gateway.rs\<close>, \<open>routing.rs\<close>, \<open>load_balancer/selector.rs\<close>):
    backends live in a heap and \<open>Arc<Backend>\<close> is an index into it, so that the table, the health
    checker and requests in flight share them. Shown: the selectors are optimal, stable and agree.
  \<^item> \<open>Rate_Limit\<close> (\<open>domain/rate_limit.rs\<close>, \<open>vortex-filters/src/rate_limiter/redis_store.rs\<close>): the Lua script
    in double arithmetic over a Redis that is a parameter, refined to an integer GCRA, and the bound on
    the cost admitted in any window.
  \<^item> \<open>Wasm\<close> (\<open>vortex-filters/src/wasm_engine.rs\<close>, \<open>proxy_wasm/\<close>): status codes, host functions with the
    guest memory as a parameter and their registration with a linker, and the two ways a module is run.
    \<open>Utf8\<close> has the check that their string arguments pass: it accepts exactly the encodings of scalar
    values, each in one way. Shown: every branch of the calls, and that guests never see header values.
  \<^item> \<open>Xdp\<close> (\<open>vortex-ebpf\<close>): the limiter trait as a locale, the in-memory and the Linux limiter that
    interpret it, the hash map and the XDP program of \<open>bpf/xdp_drop.c\<close> on packet bytes.
  \<^item> \<open>Ban_Manager\<close> (\<open>vortex-proxy/src/ban_manager.rs\<close>): bans and the sweeper, run one after another and
    interleaved; proved from the limiter's contract alone.
  \<^item> \<open>Conn_Pool\<close>, \<open>Health\<close>, \<open>Tls\<close>, \<open>Telemetry\<close> (\<open>connection_pool/pool.rs\<close>, \<open>health_check/prober.rs\<close>, \<open>tls.rs\<close>,
    \<open>telemetry.rs\<close>): the connection pool, the health prober, SNI certificates and PEM loading, set-up of
    tracing and trace headers. The certificate manager is refined to the history of its operations.
  \<^item> \<open>Metrics_Ext\<close>, \<open>Quic\<close> (\<open>metrics_ext.rs\<close>, \<open>quic_server.rs\<close>): the metrics exporter's histograms and the QUIC
    listener, with the libraries as parameters.
  \<^item> \<open>Admin\<close> (\<open>vortex-admin/src/server.rs\<close>, \<open>k8s_watcher.rs\<close>): the control plane on the state it shares with
    the data plane, the admin socket and the route watcher.
  \<^item> \<open>Server\<close> (\<open>vortex-proxy/src/server.rs\<close>): \<open>forward_request\<close> with every branch as one function, over a
    context that extends the shared state. \<open>Pipeline\<close> cuts the same handler at its operations and awaits
    (\<open>advance\<close>), with what dropping it at an await releases (\<open>cancel\<close>): a ban is the block in the kernel
    and then the record of its expiry, and a selection loads the table and then reads each backend of it, one
    field after another, while others change them. Run without interruption the phases are the function, and
    every operation lowers a rank. \<open>Trace\<close> is the service closure around
    the handler: the trace context read at the edge and injected again, so that a client's trace goes on.
  \<^item> \<open>Listener\<close> (\<open>start_server\<close>): the accept loop, the shutdown channel and the life of a connection.
    \<open>Startup\<close> (\<open>main.rs\<close>): core pinning and \<open>async_main\<close> with everything that makes it panic. \<open>Process\<close>: \<open>main\<close>
    from the runtime to the exit status, and the crate roots.
  \<^item> \<open>System\<close>: the step relation of the running proxy. Connections, and the phases of their requests,
    interleave with each other and with probes, admin requests, route events and the sweeper, which visits
    one entry of the bans in a step. Each
    operation of a request meets surroundings of its own. \<open>Drain\<close> bounds the steps left after the
    shutdown signal and shows that no connection is stuck; \<open>Control\<close> follows, through a run, the requests that
    can still be given to a backend while it is out of the table or unhealthy, and the limiter of the ban
    manager; \<open>Limits\<close> logs the checks of all connections in the
    order in which they reach the rate store, answered or abandoned, and shows that the store alone decides
    who passes.
  \<^item> \<open>Unit_Tests\<close>: the test modules of the sources, translated, and when they pass.
  \<^item> This theory: properties of several parts together, that is load shedding from a dead backend, the
    rate limiter seen from a request and from all connections together, the invariant of the running system, the draining after a shutdown, the withdrawal of backends, and what the
    kernel drops while the proxy runs.

  \<^bold>\<open>How state and effects correspond\<close>

  A struct is a record; atomics are its fields; \<open>ArcSwap\<close>, \<open>RwLock\<close> and \<open>DashMap\<close> contents are fields updated
  by explicit state passing. \<open>Result\<close> is a sum with the error on the left, a panic is \<open>Panic\<close>. Clocks,
  sockets, files and every answer from outside are arguments: the records \<open>rate_env\<close>, \<open>RequestEnv\<close> and
  \<open>StartEnv\<close>. Third-party code is a parameter: Redis and its Lua number formatting (\<open>Redis\<close>, \<open>redis_laws\<close>),
  Wasmtime (\<open>Wasmtime\<close>, \<open>ProxyWasm\<close>, \<open>memory_law\<close>), OpenTelemetry (\<open>OpenTelemetry\<close>, \<open>trace_sdk\<close>), the kernel's map (\<open>BpfMap\<close>, locale \<open>bpf_map\<close>), the \<open>http\<close> crate's checks
  (\<open>HttpCrate\<close>), the eBPF loader (\<open>Aya\<close>), the exporters (\<open>PrometheusBuilder\<close>, \<open>builder_law\<close>; the OTLP pipeline),
  quinn (\<open>Quinn\<close>), PEM parsing, socket address parsing and the
  text of an IPv6 address. Concurrency is interleaving: a step is one operation on shared state, and
  \<open>Ewma\<close>, \<open>Breaker_Race\<close> and \<open>Ban_Manager\<close> split the operations that are not atomic themselves. In
  \<open>System\<close> the two loads of a score, and the two accesses of a breaker operation, are one step each.

  A panic of a task ends the process, since the release profile of \<open>src/Cargo.toml\<close> sets \<open>panic = "abort"\<close>; in a
  build that unwinds it ends the task alone. \<open>Process\<close> has both. The step relation of \<open>System\<close> has no step for
  it: it describes the process until then. The Linux limiter unwraps the map it looks up by name, so that its methods are
  outcomes; that the loaded object has the map, which \<open>xdp_drop.c\<close> declares, is the law \<open>has_map\<close> of \<open>bpf_map\<close>.

  \<^bold>\<open>Interfaces\<close>

  \<open>total_cmp\<close> and \<open>keyed_cmp\<close> (comparisons, interpreted on IEEE comparison and on scores), \<open>xdp_limiter\<close>,
  \<open>bpf_map\<close> and \<open>reliable_limiter\<close> (interpreted on both limiters), \<open>pool_interface\<close> (interpreted on the pool),
  \<open>gcra_store\<close> (the contract of the trait \<open>RateStore\<close>, interpreted on the Redis store; the bound on what a client
  gets through while connections interleave rests on it alone), \<open>linker\<close> and \<open>guest_runtime\<close> (Wasmtime's linker and what a guest can
  learn of the store's data, interpreted on guests as trees of host calls).

  \<^bold>\<open>Bounds\<close>

  No definition uses fuel: loops are structural or have a termination measure (the phases of a request
  are ranked: at most seventeen operations lead to its end besides the reads of the selection, which are at
  most four for each backend of the table it loads; so a connection has at most nineteen steps and those reads
  left when no request follows). The rate limiter's
  refinement covers limits that divide the period (the proxy uses 1000 per 60000 ms) and times and
  charges below \<open>2 ^ 50\<close> ms, where doubles are exact. Latency histories are covered for the decay 0.5
  that every backend has and all durations Rust can represent. Counters wrap at their width.

  \<^bold>\<open>Not modelled\<close>

  Request and response bodies, which \<open>hyper\<close> streams; HTTP framing, TLS records, the gRPC and Kubernetes
  transports, which are libraries. Log output, apart from the ingress log. Memory orderings weaker
  than sequential consistency: each atomic operation is one step. Timers are ticks in any number: that the
  process leaves its connections two seconds to drain is part of what \<open>main\<close> returns, but how long a step takes is
  not modelled, so that what is cut off after two seconds is not either. A plugin that never returns is not
  modelled, since Wasmtime's answer is a value. The crate roots otherwise hold module declarations.
\<close>

section \<open>Sequences of requests\<close>

text \<open>Requests handled one after another, with the surroundings each meets, and their replies.\<close>

fun forward_run ::
  "('w, 's, 'x) Deps \<Rightarrow> ('c RequestEnv \<times> Request \<times> SocketAddr) list \<Rightarrow> ('c, 'x, 's) ServerContext
     \<Rightarrow> ((string + Response) list \<times> ('c, 'x, 's) ServerContext) outcome" where
  "forward_run D [] c = Ret ([], c)"
| "forward_run D ((env, req, client) # qs) c =
     obind (forward_request D env req client c) (\<lambda>(r, c'). obind (forward_run D qs c') (\<lambda>(rs, c''). Ret (r # rs, c'')))"

section \<open>A dead upstream\<close>

text \<open>
  The specification: the history of failures alone decides whether a request at time \<open>t\<close> is tried, and
  adds a failure, or refused.
\<close>

definition refusal :: "rate_error + RateLimitResult \<Rightarrow> RateLimitResult option" where
  "refusal r = (case r of Inr res \<Rightarrow> if allowed res then None else Some res | Inl e \<Rightarrow> None)"

fun shed :: "(u64 \<times> (rate_error + RateLimitResult)) list \<Rightarrow> u64 list \<Rightarrow> (string + Response) list" where
  "shed [] history = []"
| "shed ((t, answer) # ts) history =
     (case refusal answer of
        Some res \<Rightarrow> Inr (too_many_requests res) # shed ts history
      | None \<Rightarrow> if spec_state t history = Open then Inr no_healthy_upstream # shed ts history
                else Inr connection_failed # shed ts (history @ [t]))"

text \<open>The answers of the rate store to the checks of the requests, one after another.\<close>

fun limit_answers ::
  "('w, 's, 'x) Deps \<Rightarrow> ('c RequestEnv \<times> Request \<times> SocketAddr) list \<Rightarrow> 's \<Rightarrow> (rate_error + RateLimitResult) list" where
  "limit_answers D [] s = []"
| "limit_answers D ((env, req, client) # qs) s =
     (let (answer, s') = check_limit D (limit_env env) (rate_key D client) 1000 (from_secs 60) (request_cost (http D) req) s
      in answer # limit_answers D qs s')"

definition dead_env :: "u64 \<Rightarrow> 'c RequestEnv \<Rightarrow> bool" where
  "dead_env t env \<longleftrightarrow> select_clock env = Some t \<and> failure_clock env = Some t \<and> \<not> connect_ok env \<and> unat t + 30 < 2 ^ 64"

text \<open>One healthy backend, no idle connection to it, and its breaker standing for the history.\<close>

definition dead_rel :: "('c, 'x, 's) ServerContext \<Rightarrow> u64 list \<Rightarrow> bool" where
  "dead_rel c history \<longleftrightarrow> (\<exists>x. bheap c = [x] \<and> healthy x \<and> idle (connection_pool c) (addr x) = []
       \<and> cb_abs history (circuit_breaker x))
     \<and> backends (routing_table c) = [0] \<and> \<not> wasm_poisoned c
     \<and> (\<forall>t \<in> set history. unat t + 30 < 2 ^ 64)"

lemma dead_select:
  assumes "bheap c = [x]" "healthy x" "backends (routing_table c) = [0]" "cb_abs history (circuit_breaker x)"
    and "length history < 2 ^ 64" "\<forall>t \<in> set history. unat t + 30 < 2 ^ 64"
  shows "select_best_backend (Some t) (bheap c) (routing_table c)
    = Ret (if spec_state t history = Open then None else Some 0)"
proof -
  have "admitted t (bheap c) 0 \<longleftrightarrow> spec_state t history \<noteq> Open"
    using cb_abs_state [OF assms(4-6), of t] assms(1,2) by (simp add: admitted_def is_healthy_def)
  then show ?thesis using assms(3) by (simp add: selection_simps available_Some)
qed

lemma dead_exchange:
  assumes "dead_rel c history" "dead_env t env" "Suc (length history) < 2 ^ 64"
    and "select_best_backend (Some t) (bheap c) (routing_table c) = Ret (Some 0)"
  shows "\<exists>c'. proxy_upstream D env req (c\<lparr>rate_store := store\<rparr>) = Ret (Inr connection_failed, c') \<and> dead_rel c' (history @ [t])
    \<and> rate_store c' = store"
proof -
  obtain x where x: "bheap c = [x]" "healthy x" "idle (connection_pool c) (addr x) = []" "cb_abs history (circuit_breaker x)"
    "backends (routing_table c) = [0]" "\<not> wasm_poisoned c" "\<forall>t \<in> set history. unat t + 30 < 2 ^ 64"
    using assms(1) by (auto simp: dead_rel_def)
  have env: "select_clock env = Some t" "failure_clock env = Some t" "\<not> connect_ok env" "unat t + 30 < 2 ^ 64"
    using assms(2) by (simp_all add: dead_env_def)
  obtain cb where cb: "record_failure (Some t) (circuit_breaker x) = Ret cb" "cb_abs (history @ [t]) cb"
    using cb_abs_failure [OF x(4) assms(3)] by blast
  have pop: "fst (try_pop (pop_closed env) (addr x) (connection_pool c)) = None"
    "idle (snd (try_pop (pop_closed env) (addr x) (connection_pool c))) (addr x) = []"
    using x(3) by (simp_all add: fst_try_pop idle_try_pop)
  then obtain pool where pool: "try_pop (pop_closed env) (addr x) (connection_pool c) = (None, pool)" "idle pool (addr x) = []"
    by (metis prod.collapse)
  have "proxy_upstream D env req (c\<lparr>rate_store := store\<rparr>) = Ret (Inr connection_failed,
      (on_backend 0 (\<lambda>y. y\<lparr>b_ewma := drop_guard (b_ewma y)\<rparr>)
        (on_backend 0 (\<lambda>y. y\<lparr>circuit_breaker := cb\<rparr>)
          ((on_backend 0 (\<lambda>y. y\<lparr>b_ewma := increment_active (b_ewma y)\<rparr>) (c\<lparr>rate_store := store\<rparr>))\<lparr>connection_pool := pool\<rparr>))))"
    using assms(4) x(1) env pool cb(1)
    by (simp add: proxy_upstream_def upstream_exchange_def acquire_sender_def upstream_failure_def modify_def)
  then show ?thesis using x env cb(2) pool(2) by (simp add: dead_rel_def modify_def)
qed

lemma forward_limited:
  assumes "\<not> wasm_poisoned c" "check_limit D (limit_env env) (rate_key D client) 1000 (from_secs 60) (request_cost (http D) req) (rate_store c) = (Inr res, store)"
    and "\<not> allowed res"
  shows "forward_request D env req client c = Ret (Inr (too_many_requests res),
    c\<lparr>rate_store := store, ban_manager := ban_ip (xdp D) (ban_now env) (addr_ip client) (from_secs 300) (ban_manager c)\<rparr>)"
  using forward_request_split [OF assms(1,2)] assms(3) by simp

text \<open>A request that the limiter lets pass, by an answer or by an error.\<close>

lemma dead_passed:
  assumes "dead_rel c history" "dead_env t env" "Suc (length history) < 2 ^ 64"
  shows "\<exists>c'. proxy_upstream D env req (c\<lparr>rate_store := store\<rparr>)
      = Ret (if spec_state t history = Open then Inr no_healthy_upstream else Inr connection_failed, c')
    \<and> dead_rel c' (if spec_state t history = Open then history else history @ [t]) \<and> rate_store c' = store"
proof -
  obtain x where x: "bheap c = [x]" "healthy x" "cb_abs history (circuit_breaker x)"
    "backends (routing_table c) = [0]" "\<forall>t \<in> set history. unat t + 30 < 2 ^ 64"
    using assms(1) by (auto simp: dead_rel_def)
  have sel: "select_best_backend (Some t) (bheap c) (routing_table c) = Ret (if spec_state t history = Open then None else Some 0)"
    using dead_select [OF x(1,2,4,3) _ x(5)] assms(3) by simp
  show ?thesis
  proof (cases "spec_state t history = Open")
    case True
    then have "proxy_upstream D env req (c\<lparr>rate_store := store\<rparr>) = Ret (Inr no_healthy_upstream, c\<lparr>rate_store := store\<rparr>)"
      using sel assms(2) by (simp add: proxy_upstream_def dead_env_def)
    moreover have "dead_rel (c\<lparr>rate_store := store\<rparr>) history" using assms(1) by (simp add: dead_rel_def)
    ultimately show ?thesis using True by simp
  next
    case False
    then show ?thesis using dead_exchange [OF assms, where D = D and req = req and store = store] sel by auto
  qed
qed

lemma dead_step:
  assumes "dead_rel c history" "dead_env t env" "Suc (length history) < 2 ^ 64"
    and lim: "check_limit D (limit_env env) (rate_key D client) 1000 (from_secs 60) (request_cost (http D) req) (rate_store c) = (answer, store)"
  shows "\<exists>reply c' history'. forward_request D env req client c = Ret (reply, c')
    \<and> dead_rel c' history' \<and> rate_store c' = store \<and> length history' \<le> Suc (length history)
    \<and> (\<forall>ts. shed ((t, answer) # ts) history = reply # shed ts history')"
proof -
  have np: "\<not> wasm_poisoned c" using assms(1) by (simp add: dead_rel_def)
  show ?thesis
  proof (cases "refusal answer")
    case (Some res)
    then have "answer = Inr res" "\<not> allowed res" by (auto simp: refusal_def split: sum.splits if_splits)
    with forward_limited [OF np] lim Some assms(1) show ?thesis
      by (intro exI [of _ "Inr (too_many_requests res)"] exI [of _ "c\<lparr>rate_store := store, ban_manager := ban_ip (xdp D) (ban_now env) (addr_ip client) (from_secs 300) (ban_manager c)\<rparr>"]
          exI [of _ history]) (simp add: dead_rel_def)
  next
    case None
    then have "forward_request D env req client c = proxy_upstream D env req (c\<lparr>rate_store := store\<rparr>)"
      unfolding forward_request_split [OF np lim] by (auto simp: refusal_def split: sum.splits if_splits)
    with dead_passed [OF assms(1-3), where D = D and req = req and store = store] None show ?thesis
      by (cases "spec_state t history = Open") fastforce+
  qed
qed

text \<open>
  C8. Load is shed from a dead backend. With one backend that cannot be reached, requests at any sequence of times
  and from any clients, whatever the rate store answers them, get exactly the replies that the store and the history
  of failures prescribe: one that the store refuses is answered 429 and leaves the history alone; any other is tried
  and answered 503 "connection failed" while the breaker is not Open, and refused at once with 503 "no
  healthy upstream" while it is; the pipeline as a whole is the circuit breaker of the specification.
\<close>

theorem dead_upstream_is_shed:
  assumes "dead_rel c history" "list_all2 (\<lambda>t q. dead_env t (fst q)) ts qs" "length history + length ts < 2 ^ 64"
  shows "\<exists>c'. forward_run D qs c = Ret (shed (zip ts (limit_answers D qs (rate_store c))) history, c')"
  using assms
proof (induction ts arbitrary: qs c history)
  case (Cons t ts)
  then obtain env req client qs' where q: "qs = (env, req, client) # qs'" "dead_env t env"
    "list_all2 (\<lambda>t q. dead_env t (fst q)) ts qs'"
    by (auto simp: list_all2_Cons1)
  obtain answer store where lim:
    "check_limit D (limit_env env) (rate_key D client) 1000 (from_secs 60) (request_cost (http D) req) (rate_store c) = (answer, store)"
    by fastforce
  obtain reply c1 history' where c1: "forward_request D env req client c = Ret (reply, c1)"
    "dead_rel c1 history'" "rate_store c1 = store" "length history' \<le> Suc (length history)"
    "\<And>ts. shed ((t, answer) # ts) history = reply # shed ts history'"
    using dead_step [OF Cons.prems(1) q(2) _ lim] Cons.prems(3) by fastforce
  have "length history' + length ts < 2 ^ 64" using c1(4) Cons.prems(3) by simp
  then obtain c2 where "forward_run D qs' c1 = Ret (shed (zip ts (limit_answers D qs' store)) history', c2)"
    using Cons.IH [OF c1(2) q(3)] c1(3) by blast
  with c1(1) show ?case by (simp add: q(1) lim c1(5) del: shed.simps)
qed simp

text \<open>Answers of a store whose clock agrees with the proxy's, as a run of the store.\<close>

lemma limit_answers_run:
  assumes "list_all2 (\<lambda>(k, t, c) (env, req, client). limit_env env = env_at t \<and> k = rate_key D client \<and> c = request_cost (http D) req) rs qs"
  shows "limit_answers D qs s = fst (store_run (\<lambda>t. check_limit D (env_at t)) 1000 (from_secs 60) rs s)"
  using assms by (induction rs qs arbitrary: s rule: list_all2_induct) (auto split: prod.splits)

definition dead_at :: "u64 \<Rightarrow> nat \<Rightarrow> nat \<Rightarrow> nat RequestEnv \<times> Request \<times> SocketAddr" where
  "dead_at t ms tokens = (demo_env\<lparr>select_clock := Some t, failure_clock := Some t, limit_env := env_at ms, connect_ok := False\<rparr>,
     ai_request tokens, demo_client)"

definition dead_checks :: "request list" where
  "dead_checks = map (\<lambda>(t, c). (rate_key demo_deps demo_client, t, c))
     [(1700000000100, 4096), (1700000000101, 1), (1700000000102, 2), (1700000000103, 3), (1700000000104, 4), (1700000000105, 5),
      (1700000000106, 6), (1700000040000, 7)]"

definition dead_requests :: "(nat RequestEnv \<times> Request \<times> SocketAddr) list" where
  "dead_requests = [dead_at 100 1700000000100 (unat (4096 :: u64)), dead_at 101 1700000000101 (unat (1 :: u64)),
     dead_at 102 1700000000102 (unat (2 :: u64)), dead_at 103 1700000000103 (unat (3 :: u64)), dead_at 104 1700000000104 (unat (4 :: u64)),
     dead_at 105 1700000000105 (unat (5 :: u64)), dead_at 106 1700000000106 (unat (6 :: u64)), dead_at 140 1700000040000 (unat (7 :: u64))]"

lemma dead_answers:
  "map refusal (limit_answers demo_deps dead_requests (rate_store demo_ctx))
     = Some \<lparr>allowed = False, remaining = 1000, reset_after = 0\<rparr> # [None, None, None, None, None, None, None]"
proof -
  have cost: "request_cost (http demo_deps) (ai_request (unat n)) = n" for n
    using ai_request_cost [of n] by (simp add: demo_deps_def)
  have "limit_answers demo_deps dead_requests (rate_store demo_ctx)
      = fst (store_run (\<lambda>t. check_limit demo_deps (env_at t)) 1000 (from_secs 60) dead_checks (rate_store demo_ctx))"
    by (rule limit_answers_run) (simp only: dead_checks_def dead_requests_def dead_at_def list.map prod.case list_all2_Cons list_all2_Nil2
        RequestEnv.select_convs RequestEnv.surjective RequestEnv.update_convs cost, simp)
  also have "\<dots> = fst (check_run map_redis 1000 (from_secs 60) dead_checks Map.empty)"
    by (simp only: demo_deps_def Deps.select_convs demo_ctx_def ServerContext.select_convs)
  also have "\<dots> = map result_of (fst (spec_run 60 60000 dead_checks (\<lambda>_. None)))"
    by (rule map_store.run_refines [OF gcra_sim_fresh [OF map_redis_empty] proxy_config proxy_period]) (simp add: dead_checks_def)
  finally show ?thesis
    by (simp add: dead_checks_def gcra_spec_def gcra_tat_def result_of_def refusal_def from_millis_def)
qed

theorem dead_upstream_is_shed_witness:
  "\<exists>c'. forward_run demo_deps dead_requests demo_ctx
     = Ret (map Inr [too_many_requests \<lparr>allowed = False, remaining = 1000, reset_after = 0\<rparr>, connection_failed, connection_failed,
         connection_failed, connection_failed, connection_failed, no_healthy_upstream, connection_failed], c')"
proof -
  let ?ts = "[100, 101, 102, 103, 104, 105, 106, 140]"
  have rel: "dead_rel demo_ctx []"
    by (simp add: dead_rel_def demo_ctx_def routing_table_new_def) (simp add: backend_new_def cb_new_abs)
  have l: "list_all2 (\<lambda>t q. dead_env t (fst q)) ?ts dead_requests"
    by (simp add: dead_env_def dead_requests_def dead_at_def)
  obtain a1 a2 a3 a4 a5 a6 a7 a8 where a: "limit_answers demo_deps dead_requests (rate_store demo_ctx) = [a1, a2, a3, a4, a5, a6, a7, a8]"
    "refusal a1 = Some \<lparr>allowed = False, remaining = 1000, reset_after = 0\<rparr>"
    "refusal a2 = None" "refusal a3 = None" "refusal a4 = None" "refusal a5 = None" "refusal a6 = None" "refusal a7 = None" "refusal a8 = None"
    using dead_answers by (auto simp: map_eq_Cons_conv)
  have "shed (zip ?ts [a1, a2, a3, a4, a5, a6, a7, a8]) []
      = map Inr [too_many_requests \<lparr>allowed = False, remaining = 1000, reset_after = 0\<rparr>, connection_failed, connection_failed,
         connection_failed, connection_failed, connection_failed, no_healthy_upstream, connection_failed]"
    using a(2-9) by (simp add: spec_state_def)
  with dead_upstream_is_shed [OF rel l, of demo_deps] show ?thesis unfolding a(1) by simp
qed

definition open_deps :: "(unit, unit, MockXdpLimiter) Deps" where
  "open_deps = \<lparr>http = demo_http, wasmtime = demo_wasmtime,
     check_limit = (\<lambda>e k l p c s. (Inr \<lparr>allowed = True, remaining = 0, reset_after = 0\<rparr>, s)), xdp = mock_xdp, show_v6 = (\<lambda>w. ''v6'')\<rparr>"

section \<open>Rate limiting from end to end\<close>

text \<open>
  C21. A request that costs more than the limit. On a Redis with its documented behaviour, a client with no
  history that asks for more than 1000 tokens at once is answered 429 with reset time zero, is banned
  for 300 seconds from that moment, by the kernel when the limiter covers its address, and no
  backend, pooled connection or metric is touched.
\<close>

theorem oversized_request_is_banned:
  assumes "redis_laws R" "check_limit D = check_rate_limit R" "\<And>u k. redis_get R (rate_store c) u k = None"
    and "1000 < request_cost (http D) req" "unat (request_cost (http D) req) \<le> 2 ^ 40" "60000 \<le> t" "t \<le> 2 ^ 50"
    and "\<not> wasm_poisoned c" "xdp_limiter (xdp D) covers"
    and "limiter (ban_manager c) = Some l" "block_ip (xdp D) l (addr_ip client) = (Inr (), l')"
    and "u < ban_now env + from_secs 300" "limit_env env = env_at t"
  shows "\<exists>c'. forward_request D env req client c
      = Ret (Inr (too_many_requests \<lparr>allowed = False, remaining = 1000, reset_after = 0\<rparr>), c')
    \<and> is_ip_banned (xdp D) u (addr_ip client) (ban_manager c')
    \<and> (covers (addr_ip client) \<longrightarrow> kernel_blocks (xdp D) (ban_manager c') (addr_ip client))
    \<and> bheap c' = bheap c \<and> connection_pool c' = connection_pool c \<and> metrics c' = metrics c"
proof -
  let ?cost = "request_cost (http D) req" and ?res = "\<lparr>allowed = False, remaining = 1000, reset_after = 0\<rparr>"
  have cfg: "gcra_config (unat (1000 :: u64)) 60 60000 t" using assms(6,7) by (simp add: gcra_config_def)
  have per: "as_millis (from_secs 60) = 60000" by (rule proxy_period)
  have pos: "0 < ?cost" "60 * unat ?cost \<le> 2 ^ 50" using assms(4,5) by (auto intro: order_less_trans [OF _ assms(4)])
  obtain store where store: "check_limit D (limit_env env) (rate_key D client) 1000 (from_secs 60) ?cost (rate_store c) = (Inr ?res, store)"
  proof -
    have "gcra_spec 60 60000 t (unat ?cost) None = ((False, 1000, 0), None)"
      using assms(4) by (simp add: gcra_spec_def gcra_tat_def Let_def word_less_nat_alt)
    then obtain s' where "check_rate_limit R (env_at t) (rate_key D client) 1000 (from_secs 60) ?cost (rate_store c)
        = (result_of (False, 1000, 0), s')"
      using check_rate_limit_refines [OF assms(1) gcra_sim_fresh [OF assms(3)] cfg per pos] by blast
    then show ?thesis using that assms(2,13) by (simp add: result_of_def from_millis_def)
  qed
  note fwd = forward_limited [OF assms(8) store, simplified]
  have blocked: "is_ip_blocked (xdp D) l' (addr_ip client)" if "covers (addr_ip client)"
    using xdp_limiter.block_ok [OF assms(9,11), of "addr_ip client"] that by simp
  show ?thesis
    using fwd assms(10-12) blocked by (simp add: ban_defs)
qed

theorem oversized_request_is_banned_witness:
  "\<exists>c'. forward_request demo_deps demo_env (ai_request (unat (4096 :: u64))) demo_client demo_ctx
      = Ret (Inr (too_many_requests \<lparr>allowed = False, remaining = 1000, reset_after = 0\<rparr>), c')
    \<and> is_ip_banned mock_xdp (from_secs 299) (addr_ip demo_client) (ban_manager c')"
proof -
  have cost: "request_cost (http demo_deps) (ai_request (unat (4096 :: u64))) = 4096"
    using ai_request_cost [of 4096] by (simp add: demo_deps_def)
  have x: "xdp demo_deps = mock_xdp" by (simp add: demo_deps_def)
  have b: "block_ip (xdp demo_deps) mock_new (addr_ip demo_client) = (Inr (), {addr_ip demo_client})"
    by (simp add: x mock_defs)
  have l: "limiter (ban_manager demo_ctx) = Some mock_new" by (simp add: demo_ctx_def ban_manager_new_def)
  have r: "redis_get map_redis (rate_store demo_ctx) u k = None" for u k by (simp add: demo_ctx_def map_redis_empty)
  have c: "check_limit demo_deps = check_rate_limit map_redis" "limit_env demo_env = env_at 1700000000000"
    "\<not> wasm_poisoned demo_ctx" "from_secs 299 < ban_now demo_env + from_secs 300"
    by (simp_all add: demo_deps_def demo_ctx_def demo_env_def from_secs_def)
  have m: "xdp_limiter (xdp demo_deps) (\<lambda>_. True)" unfolding x by (rule mock.xdp_limiter_axioms)
  show ?thesis
    using oversized_request_is_banned [OF map_redis_laws c(1) r _ _ _ _ c(3) m l b c(4,2), of "ai_request (unat (4096 :: u64))"] cost
    unfolding x by auto
qed

text \<open>
  C31. A request that announces zero tokens is not limited at all: on a Redis with its documented
  behaviour, while the client's key has no live entry, the check is an error, the store does not
  change and the request is forwarded as if it had been allowed. As the store is the same after it,
  any number of such requests pass.
\<close>

theorem zero_token_requests_are_not_limited:
  assumes "redis_laws R" "check_limit D = check_rate_limit R"
    and "redis_get R (rate_store c) t (rate_key D client) = None"
    and "request_cost (http D) req = 0" "60000 \<le> t" "t \<le> 2 ^ 50" "\<not> wasm_poisoned c" "limit_env env = env_at t"
  shows "forward_request D env req client c = proxy_upstream D env req c"
proof -
  have cfg: "gcra_config (unat (1000 :: u64)) 60 60000 t" using assms(5,6) by (simp add: gcra_config_def)
  have "check_rate_limit R (env_at t) (rate_key D client) 1000 (from_secs 60) 0 (rate_store c) = (Inl RedisError, rate_store c)"
    by (rule zero_cost_check [OF assms(1,3) cfg proxy_period])
  then have "check_limit D (limit_env env) (rate_key D client) 1000 (from_secs 60) (request_cost (http D) req) (rate_store c)
      = (Inl RedisError, rate_store c)" using assms(2,4,8) by simp
  from forward_request_split [OF assms(7) this] show ?thesis by simp
qed

theorem zero_token_requests_are_not_limited_witness:
  "forward_request demo_deps demo_env (ai_request (unat (0 :: u64))) demo_client demo_ctx
     = proxy_upstream demo_deps demo_env (ai_request (unat (0 :: u64))) demo_ctx"
proof -
  have cost: "request_cost (http demo_deps) (ai_request (unat (0 :: u64))) = 0"
    using ai_request_cost [of 0] by (simp add: demo_deps_def)
  show ?thesis
    by (rule zero_token_requests_are_not_limited [where t = 1700000000000, OF map_redis_laws _ _ cost])
      (simp_all add: demo_deps_def demo_ctx_def demo_env_def map_redis_empty)
qed

section \<open>What a client gets through\<close>

text \<open>
  C4. The rate limit while connections run beside each other. On a Redis with its documented behaviour, however
  the requests of all connections interleave, operation by operation, with each other and with all that the proxy does
  besides: when checks have positive costs and times that do not decrease, then in any stretch of the log of checks the
  cost of the requests from one client address that go on to a backend is at most the burst of 1000 plus one
  unit for each 60 milliseconds between the first check of the stretch and the last.
\<close>

theorem client_throughput_bound:
  assumes "redis_laws R" "check_limit D = check_rate_limit R" "\<And>u k. redis_get R (rate_store (ctx S0)) u k = None"
    and "limit_run D parse_addr tls owner S0 (before @ ((k1, t1, c1), b1) # window) S"
    and "requests_ok 60 t0 (map fst (before @ ((k1, t1, c1), b1) # window))" "60000 \<le> t0"
  shows "60 * passed_cost (rate_key D client) (((k1, t1, c1), b1) # window) + t1 \<le> 60 * 1000 + last_time t1 (map fst window)"
  using gcra_store.logged_window [OF redis_gcra_store [OF assms(1)] _ gcra_sim_fresh [OF assms(3)] assms(4-6), of "rate_key D client"]
  by (simp add: assms(2))

text \<open>Two connections of one client, both about to be checked.\<close>

definition limited_conn :: "nat Conn" where
  "limited_conn = \<lparr>peer = demo_client, conn_phase = Serving demo_request (Limiting 600)\<rparr>"

definition demo_pair :: "(nat, MockXdpLimiter, redis_map) system" where
  "demo_pair = \<lparr>ctx = demo_ctx, conns = [limited_conn, limited_conn], listening = True\<rparr>"

theorem client_throughput_bound_witness:
  "\<exists>b1 b2 S. limit_run demo_deps (\<lambda>_. None) False (\<lambda>_. addr_a) demo_pair
        [((rate_key demo_deps demo_client, 1700000000000, 600), b1), ((rate_key demo_deps demo_client, 1700000000006, 600), b2)] S
     \<and> \<not> (b1 \<and> b2)"
proof -
  let ?run = "limit_run demo_deps (\<lambda>_. None) False (\<lambda>_. addr_a) demo_pair" and ?k = "rate_key demo_deps demo_client"
  let ?late = "demo_env\<lparr>limit_env := env_at 1700000000006\<rparr>"
  have e: "env_ok demo_env" "env_ok ?late" using demo_sane by (simp_all add: sane_def env_ok_def)
  obtain p1 c1 where a1: "advance demo_deps demo_env demo_request demo_client (Limiting 600) demo_ctx = Ret (p1, c1)"
    using advance_limiting_returns by blast
  let ?S = "move 0 (Serving demo_request p1) c1 demo_pair"
  have "?run ([] @ [((rate_key demo_deps (peer (conns demo_pair ! 0)), 1700000000000, 600), p1 = Selecting)]) ?S"
    by (rule limit_run.checked [OF limit_run.here]) (use a1 e in \<open>simp_all add: demo_pair_def limited_conn_def, simp add: demo_env_def\<close>)
  then have r1: "?run [((?k, 1700000000000, 600), p1 = Selecting)] ?S" by (simp add: demo_pair_def limited_conn_def)
  have S: "conns ?S ! 1 = limited_conn" "ctx ?S = c1" "length (conns ?S) = 2" by (simp_all add: move_def set_phase_def demo_pair_def)
  obtain p2 c2 where a2: "advance demo_deps ?late demo_request demo_client (Limiting 600) c1 = Ret (p2, c2)"
    using advance_limiting_returns by blast
  have "?run ([((?k, 1700000000000, 600), p1 = Selecting)] @ [((rate_key demo_deps (peer (conns ?S ! 1)), 1700000000006, 600), p2 = Selecting)])
      (move 1 (Serving demo_request p2) c2 ?S)"
    by (rule limit_run.checked [OF r1, where env = ?late]) (use a2 e S in \<open>simp_all add: limited_conn_def\<close>)
  then have r2: "?run ([] @ ((?k, 1700000000000, 600), p1 = Selecting) # [((?k, 1700000000006, 600), p2 = Selecting)])
      (move 1 (Serving demo_request p2) c2 ?S)" unfolding S by (simp add: limited_conn_def)
  have "check_limit demo_deps = check_rate_limit map_redis" "redis_get map_redis (rate_store (ctx demo_pair)) u k = None" for u k
    by (simp_all add: demo_deps_def demo_pair_def demo_ctx_def map_redis_empty)
  from client_throughput_bound [OF map_redis_laws this r2, of 1700000000000 demo_client]
  have "\<not> (p1 = Selecting \<and> p2 = Selecting)" by auto
  with r2 show ?thesis by auto
qed

section \<open>The running system\<close>

lemma ucast_of_nat_u32: "(ucast (of_nat n :: usize) :: u32) = of_nat n"
  by (rule bit_word_eqI) (simp add: bit_simps)

lemma tracked_under:
  fixes cs :: "'c Conn list"
  shows "tracked L bm cs \<longleftrightarrow> (\<forall>ip. kernel_blocks L bm ip \<longrightarrow> banned_ips bm ip \<noteq> None
     \<or> (\<exists>x \<in> set cs. addr_ip (peer x) = ip \<and> (\<exists>req res. conn_phase x = Serving req (Banning res))))"
proof -
  have "conn_banning ph \<longleftrightarrow> (\<exists>req res. ph = Serving req (Banning res))" for ph :: "'c conn_phase"
    by (cases ph) (auto elim: banning.elims)
  then show ?thesis unfolding tracked_def under_ban_def by auto meson+
qed

text \<open>
  C1. The invariant of the whole proxy. In every state reached from a successful start-up, while any number
  of connections and their requests interleave operation by operation with health probes, admin
  requests, route events and sweeps, and tasks are dropped at any await: the table is not empty and
  names existing backends with sound latency averages; the plugin payload is not empty; the active
  requests of each backend are exactly the guards held on it; the connection count, and what the admin
  service reports of it, is the number of live connections at the counters' widths; every address the
  kernel blocks has an expiry recorded or belongs to the peer of a connection whose task has just blocked it and
  writes the expiry next; and an upstream connection in use leads to the backend of its
  request, is in no queue of the pool, and belongs to that request alone.
\<close>

theorem system_invariant:
  assumes "xdp_limiter (xdp D) covers" "async_main E tracing = Ret (c0, tls_config)"
    and "\<And>l i. xdp_limiter_init E = Ret (Some l) \<Longrightarrow> \<not> is_ip_blocked (xdp D) l i"
    and "sys_reachable D parse_addr tls owner (system_start c0) S"
  shows "routing_ok (bheap (ctx S)) (routing_table (ctx S)) \<and> backends (routing_table (ctx S)) \<noteq> []
    \<and> active_wasm_payload (ctx S) \<noteq> []
    \<and> (\<forall>b < length (bheap (ctx S)). active_requests (b_ewma (bheap (ctx S) ! b))
          = of_nat (length (filter (\<lambda>x. conn_guard (conn_phase x) = Some b) (conns S))))
    \<and> active_connections (ctx S) = of_nat (length (filter (\<lambda>x. counted (conn_phase x)) (conns S)))
    \<and> get_stats (ctx S) = of_nat (length (filter (\<lambda>x. counted (conn_phase x)) (conns S)))
    \<and> (\<forall>ip. kernel_blocks (xdp D) (ban_manager (ctx S)) ip \<longrightarrow> banned_ips (ban_manager (ctx S)) ip \<noteq> None
        \<or> (\<exists>x \<in> set (conns S). addr_ip (peer x) = ip \<and> (\<exists>req res. conn_phase x = Serving req (Banning res))))
    \<and> (\<forall>i < length (conns S). \<forall>s. conn_sender (conn_phase (conns S ! i)) = Some s \<longrightarrow>
        (\<forall>a. s \<notin> set (idle (connection_pool (ctx S)) a))
        \<and> (\<exists>b. conn_backend (conn_phase (conns S ! i)) = Some b \<and> owner s = addr (bheap (ctx S) ! b))
        \<and> (\<forall>j < length (conns S). conn_sender (conn_phase (conns S ! j)) = Some s \<longrightarrow> j = i))"
  using running_inv [OF assms]
  by (simp add: sys_inv_def ctx_inv_def shared_ok_def guards_inv_def guards_on_def live_conns_def tracked_under senders_inv_def holds_alone_def
      get_stats_def ucast_of_nat_u32)

text \<open>A loader that finds the program and yields the given map, and an outside world in which start-up succeeds.\<close>

definition demo_aya :: "'x \<Rightarrow> (unit, 'x) Aya" where
  "demo_aya l = \<lparr>bpf_load = (\<lambda>_. Inr ()), program_mut = (\<lambda>_ _. Some (Inr ())), program_load = Inr,
     program_attach = (\<lambda>b _. Inr b), blocked_ips_map = (\<lambda>_. l)\<rparr>"

definition demo_start ::
  "'x \<Rightarrow> (unit, SocketAddr option \<times> (string \<times> f64 list) list, nat, nat, unit, 'x, unit, unit) StartEnv" where
  "demo_start l = \<lparr>otlp_install = (\<lambda>_. Inr ()), rust_log = None, prometheus = list_builder,
     tls_files = (\<lambda>_. Inr [1], \<lambda>_. Inr [7]), valid_pair = (\<lambda>_ _. True), on_linux = True, bpf_object = Some [1], aya = demo_aya l,
     engine_new = (\<lambda>_. Inr ()), redis_url_var = None, create_pool = (\<lambda>_. Inr ())\<rparr>"

definition demo_tracing :: "unit Tracing" where
  "demo_tracing = \<lparr>propagator_set = False, subscriber = None, ingress_log = []\<rparr>"

lemma demo_limiter: "xdp_limiter_init (demo_start l) = Ret (Some l)"
  by (simp add: xdp_limiter_init_def demo_start_def linux_new_def demo_aya_def)

lemma demo_main:
  "async_main (demo_start l) demo_tracing = Ret (initial_context (Some l) (), \<lparr>single_cert = ([1], 7), alpn_protocols = [''h2'', ''http/1.1'']\<rparr>)"
proof -
  have m: "init_metrics_exporter list_builder 9091 = Inr ()"
    by (simp add: init_metrics_exporter_def list_builder_def duration_buckets_def token_buckets_def)
  show ?thesis
    unfolding async_main_def demo_limiter
    by (simp add: demo_start_def demo_tracing_def init_telemetry_def m metrics_port_def load_tls_config_def load_certs_def
        load_private_key_def alloc_initial wasm_engine_new_def wasm_engine_default_def redis_store_new_def initial_context_def)
qed

lemma initial_select:
  "select_best_backend (Some 1000) initial_backends (routing_table_new [0, 1]) = Ret (Some 0)"
  by (simp add: select_best_backend_def snapshot_def routing_table_new_def available_def is_healthy_def initial_backends_def
      backend_new_def cb_defs score_cmp_def score_def cmp_or_equal_def partial_cmp_def)

text \<open>A run of the system: one connection and one request, advanced until it holds its guard.\<close>

definition one_conn :: "'c conn_phase \<Rightarrow> ('c, 'x, 's) ServerContext \<Rightarrow> ('c, 'x, 's) system" where
  "one_conn ph c = \<lparr>ctx = c, conns = [\<lparr>peer = demo_client, conn_phase = ph\<rparr>], listening = True\<rparr>"

lemma demo_env_ok [simp]: "env_ok demo_env"
  using demo_sane by (simp add: sane_def)

lemma one_conn_advance:
  assumes "sys_reachable D parse_addr tls owner S0 (one_conn (Serving req p) c)"
    and "advance D env req demo_client p c = Ret (p', c')" "env_ok env" "\<And>b. p \<noteq> Handshaking b"
  shows "sys_reachable D parse_addr tls owner S0 (one_conn (Serving req p') c')"
  using sys_reachable.step [OF assms(1) sys_step.advancing [of 0 _ req p env D p' c']] assms(2-4)
  by (simp add: one_conn_def move_def set_phase_def)

text \<open>A selection that nothing interferes with.\<close>

lemma one_conn_filtering:
  fixes env :: "'c RequestEnv" and c :: "('c, 'x, 's) ServerContext"
  assumes "sys_reachable D parse_addr tls owner S0 (one_conn (Serving req (Filtering best bs)) c)" "env_ok env"
    and "ofilter (available (select_clock env) (bheap c)) bs = Ret ys"
  shows "sys_reachable D parse_addr tls owner S0 (one_conn (Serving req (Filtering
      (case best of None \<Rightarrow> min_by (score_cmp (bheap c)) ys | Some a \<Rightarrow> Some (min_by_from (score_cmp (bheap c)) a ys)) [])) c)"
  using assms(1,3)
proof (induction bs arbitrary: best ys)
  case Nil
  then show ?case by (cases best) simp_all
next
  case (Cons b bs)
  let ?reach = "\<lambda>p. sys_reachable D parse_addr tls owner S0 (one_conn (Serving req p) c)"
  note adv = one_conn_advance [OF _ _ assms(2)]
  obtain ok zs where zs: "available (select_clock env) (bheap c) b = Ret ok"
    "ofilter (available (select_clock env) (bheap c)) bs = Ret zs" "ys = (if ok then b # zs else zs)"
    using Cons.prems(2) by (auto simp: outcome_simps)
  have health: "?reach (if is_healthy (bheap c ! b) then Probing best b bs else Filtering best bs)"
    by (rule adv [OF Cons.prems(1)]) simp_all
  show ?case
  proof (cases ok)
    case False
    have "?reach (Filtering best bs)"
    proof (cases "is_healthy (bheap c ! b)")
      case True
      with health show ?thesis using zs(1) False 
        by - (rule adv [where p = "Probing best b bs"], auto simp: available_def outcome_simps)
    qed (use health in simp)
    from Cons.IH [OF this zs(2)] zs(3) False show ?thesis by (cases best) simp_all
  next
    case True
    then obtain st where st: "is_healthy (bheap c ! b)" "cb_state (select_clock env) (circuit_breaker (bheap c ! b)) = Ret st" "st \<noteq> Open"
      using zs(1) by (auto simp: available_def outcome_simps split: if_splits)
    have "advance D env req demo_client (Probing best b bs) c = Ret (case best of None \<Rightarrow> Filtering (Some b) bs | Some a \<Rightarrow> Scoring a b bs, c)"
      by (simp only: advance.simps st obind.simps if_False)
    with health st(1) have p: "?reach (case best of None \<Rightarrow> Filtering (Some b) bs | Some a \<Rightarrow> Scoring a b bs)"
      using adv [where p = "Probing best b bs"] by simp
    have "?reach (Filtering (case best of None \<Rightarrow> Some b | Some a \<Rightarrow> Some (if score_cmp (bheap c) a b = Greater then b else a)) bs)"
    proof (cases best)
      case (Some a)
      with p have "?reach (Comparing a (score (bheap c) a) b bs)" by - (rule adv [where p = "Scoring a b bs"], simp_all)
      then show ?thesis using Some by - (rule adv [where p = "Comparing a (score (bheap c) a) b bs"], simp_all add: score_cmp_def)
    qed (use p in simp)
    from Cons.IH [OF this zs(2)] zs(3) True show ?thesis by (cases best) simp_all
  qed
qed

lemma one_conn_select:
  fixes env :: "'c RequestEnv" and c :: "('c, 'x, 's) ServerContext"
  assumes "sys_reachable D parse_addr tls owner S0 (one_conn (Serving req Selecting) c)" "env_ok env"
    and "select_best_backend (select_clock env) (bheap c) (routing_table c) = Ret (Some b)"
  shows "sys_reachable D parse_addr tls owner S0 (one_conn (Serving req (Selected b)) c)"
proof -
  obtain ys where ys: "ofilter (available (select_clock env) (bheap c)) (snapshot (routing_table c)) = Ret ys"
    "min_by (score_cmp (bheap c)) ys = Some b"
    using assms(3) by (auto simp: select_best_backend_def outcome_simps)
  have "sys_reachable D parse_addr tls owner S0 (one_conn (Serving req (Filtering None (snapshot (routing_table c)))) c)"
    by (rule one_conn_advance [OF assms(1) _ assms(2)]) simp_all
  from one_conn_filtering [OF this assms(2) ys(1)] ys(2) show ?thesis
    by - (rule one_conn_advance [where env = env and p = "Filtering (Some b) []", OF _ _ assms(2)], simp_all)
qed

lemma one_conn_serving:
  "sys_reachable D parse_addr False owner (system_start c) (one_conn (Serving demo_request Arrived) (conn_open c))"
proof -
  have "sys_reachable D parse_addr False owner (system_start c) (one_conn Spawned c)"
    using sys_reachable.step [OF sys_reachable.start sys_step.accept [of "system_start c" _ _ _ _ demo_client]]
    by (simp add: system_start_def one_conn_def conn_new_def)
  then have "sys_reachable D parse_addr False owner (system_start c) (one_conn Waiting (conn_open c))"
    using sys_reachable.step [OF _ sys_step.open_conn [of 0 "one_conn Spawned c"], where tls = False]
    by (simp add: one_conn_def move_def set_phase_def conn_start_def)
  then show ?thesis
    using sys_reachable.step [OF _ sys_step.incoming [of 0 "one_conn Waiting (conn_open c)", where req = demo_request], where tls = False]
    by (simp add: one_conn_def move_def set_phase_def)
qed

abbreviation demo_initial :: "(nat, MockXdpLimiter, unit) ServerContext" where
  "demo_initial \<equiv> initial_context (Some mock_new) ()"

abbreviation demo_reachable :: "(nat, MockXdpLimiter, unit) system \<Rightarrow> (nat, MockXdpLimiter, unit) system \<Rightarrow> bool" where
  "demo_reachable \<equiv> sys_reachable open_deps (\<lambda>_. None) False (\<lambda>_ :: nat. addr_a)"

lemma demo_selected:
  "demo_reachable (system_start demo_initial) (one_conn (Serving demo_request (Selected 0)) (conn_open demo_initial))"
proof -
  let ?c = "conn_open demo_initial"
  have cost: "request_cost demo_http demo_request = 1"
    by (simp add: request_cost_def extract_ai_metadata_def header_str_def header_get_def demo_request_def)
  have "demo_reachable (system_start demo_initial) (one_conn (Serving demo_request (Limiting 1)) ?c)"
    by (rule one_conn_advance [OF one_conn_serving, where env = demo_env])
      (simp_all add: open_deps_def cost initial_context_def conn_open_def)
  then have "demo_reachable (system_start demo_initial) (one_conn (Serving demo_request Selecting) ?c)"
    by (rule one_conn_advance [where env = demo_env]) (simp_all add: open_deps_def initial_context_def conn_open_def)
  then show ?thesis
    by (rule one_conn_select [OF _ demo_env_ok]) (simp add: initial_context_def conn_open_def demo_env_def initial_select [simplified])
qed

lemma demo_unblocked:
  "xdp_limiter (xdp open_deps) (\<lambda>_. True)" "xdp_limiter_init (demo_start mock_new) = Ret (Some l) \<Longrightarrow> \<not> is_ip_blocked (xdp open_deps) l i"
proof -
  show "xdp_limiter (xdp open_deps) (\<lambda>_. True)" using mock.xdp_limiter_axioms by (simp add: open_deps_def)
  show "\<not> is_ip_blocked (xdp open_deps) l i" if "xdp_limiter_init (demo_start mock_new) = Ret (Some l)"
    using that by (simp add: open_deps_def mock_defs demo_limiter)
qed

theorem system_invariant_witness:
  "\<exists>c0 tls_config S. async_main (demo_start mock_new) demo_tracing = Ret (c0, tls_config) \<and> demo_reachable (system_start c0) S
     \<and> active_requests (b_ewma (bheap (ctx S) ! 0)) = 1 \<and> get_stats (ctx S) = 1"
proof -
  let ?S = "one_conn (Serving demo_request (Popping 0))
     (on_backend 0 (\<lambda>x. x\<lparr>b_ewma := increment_active (b_ewma x)\<rparr>) (conn_open demo_initial))"
  have r: "demo_reachable (system_start demo_initial) ?S" using demo_selected by (rule one_conn_advance [where env = demo_env]) simp_all
  note inv = system_invariant [OF demo_unblocked(1) demo_main demo_unblocked(2) r]
  have "0 < length (bheap (ctx ?S))"
    by (simp add: one_conn_def initial_context_def conn_open_def initial_backends_def)
  with inv have "active_requests (b_ewma (bheap (ctx ?S) ! 0)) = 1" "get_stats (ctx ?S) = 1"
    by (auto simp: one_conn_def guard_of_def)
  with r show ?thesis
    by (intro exI [of _ demo_initial] exI [of _ "\<lparr>single_cert = ([1], 7), alpn_protocols = [''h2'', ''http/1.1'']\<rparr>"] exI [of _ ?S])
      (simp only: demo_main simp_thms)
qed

text \<open>
  C7. The proxy drains. In any state of the running proxy after its listener has stopped, and with
  requests in flight whose targets the \<open>http\<close> crate accepts: when clients send no further request, then
  whatever the control plane, the probes and the sweeper do meanwhile, each connection loads the table at most
  once, and the connections together take at most 19 steps each and four more for each backend of the tables
  they load or have in hand; and as long as one of them has not ended, a step of a connection is possible. So every
  such run that is carried on ends with all connections ended, and then the count of active connections and the
  active requests of every backend are zero.
\<close>

theorem shutdown_drains:
  assumes "xdp_limiter (xdp D) covers" "async_main E tracing = Ret (c0, tls_config)"
    and "\<And>l i. xdp_limiter_init E = Ret (Some l) \<Longrightarrow> \<not> is_ip_blocked (xdp D) l i"
    and "sys_reachable D parse_addr tls owner (system_start c0) S" "\<not> listening S" "targets_ok D (conns S)"
    and "quiet_run D parse_addr tls owner S n tables S'"
  shows "length tables \<le> length (conns S)
    \<and> n \<le> 19 * length (conns S) + 4 * (unread_total (conns S) + sum_list tables)
    \<and> (if list_all (\<lambda>c. conn_phase c = Ended) (conns S')
       then active_connections (ctx S') = 0 \<and> (\<forall>b < length (bheap (ctx S')). active_requests (b_ewma (bheap (ctx S') ! b)) = 0)
       else \<exists>tables' S''. quiet_run D parse_addr tls owner S (Suc n) tables' S'')"
proof -
  have "sys_inv D owner S \<and> \<not> wasm_poisoned (ctx S)" using running_sound_wasm [OF assms(1-4)] running_inv [OF assms(1-4)] by blast
  then have inv: "sys_inv D owner S' \<and> \<not> wasm_poisoned (ctx S') \<and> targets_ok D (conns S')
      \<and> n + work (conns S') \<le> work (conns S) + 4 * sum_list tables \<and> length tables + pending_loads (conns S') \<le> pending_loads (conns S)"
    using quiet_run_invariant [OF assms(7,1) _ _ assms(6,5)] by blast
  then have "n \<le> 19 * length (conns S) + 4 * (unread_total (conns S) + sum_list tables)" "length tables \<le> length (conns S)"
    using work_le [of "conns S"] pending_le [of "conns S"] by simp_all
  moreover have "\<exists>tables' S''. quiet_run D parse_addr tls owner S (Suc n) tables' S''"
    if live: "\<not> list_all (\<lambda>c. conn_phase c = Ended) (conns S')"
  proof -
    obtain i where i: "i < length (conns S')" "conn_phase (conns S' ! i) \<noteq> Ended" using live by (auto simp: list_all_length)
    with inv obtain ph c where "sys_step D parse_addr tls owner S' (move i ph c S')" "progress (conn_phase (conns S' ! i)) ph"
      using conn_moves [of D owner S' i] by blast
    with quiet_run.moves [OF assms(7)] move_quiet [OF i(1)] show ?thesis by blast
  qed
  ultimately show ?thesis using inv ended_counts by auto
qed

theorem shutdown_drains_witness:
  "\<exists>S tables S'. demo_reachable (system_start demo_initial) S \<and> \<not> listening S \<and> live_conns (conns S) = 1
     \<and> quiet_run open_deps (\<lambda>_. None) False (\<lambda>_ :: nat. addr_a) S 1 tables S'"
proof -
  let ?S = "(one_conn (Serving demo_request (Selected 0)) (conn_open demo_initial))\<lparr>listening := False\<rparr>"
  have r: "demo_reachable (system_start demo_initial) ?S"
    using sys_reachable.step [OF demo_selected sys_step.shutdown] by (simp add: one_conn_def)
  have t: "targets_ok open_deps (conns ?S)"
    by (simp add: targets_ok_def target_ok_def open_deps_def demo_http_def)
  have "\<not> list_all (\<lambda>c. conn_phase c = Ended) (conns ?S)" by (simp add: one_conn_def)
  with shutdown_drains [OF demo_unblocked(1) demo_main demo_unblocked(2) r _ t quiet_run.here]
  obtain tables S' where "quiet_run open_deps (\<lambda>_. None) False (\<lambda>_ :: nat. addr_a) ?S 1 tables S'" by auto
  moreover have "live_conns (conns ?S) = 1" by (simp add: live_conns_def one_conn_def)
  ultimately show ?thesis using r by (intro exI [of _ ?S] exI [of _ tables] exI [of _ S']) simp
qed

text \<open>
  C15. Withdrawing a backend works. While a backend stays out of the table, because a reload or a route replaced it,
  no request comes to know of it: a connection whose request may still be given to the backend, or is, had a request
  that had loaded a table with it before. While a backend stays unhealthy by its last probe, in the table or not,
  no request comes to accept it: a connection whose request may still be given to it, or is, had a request that
  had found it healthy before. So in both cases the connections that can use the backend only become
  fewer, and no request that arrives meanwhile is given to it.
\<close>

theorem withdrawn_backend_gets_no_request:
  "(run_while D parse_addr tls owner (\<lambda>c. b \<notin> set (backends (routing_table c))) S S' \<longrightarrow>
      conns_where (knows b) (conns S') \<subseteq> conns_where (knows b) (conns S)
      \<and> conns_where (\<lambda>ph. conn_backend ph = Some b) (conns S') \<subseteq> conns_where (knows b) (conns S))
   \<and> (run_while D parse_addr tls owner (\<lambda>c. \<not> healthy (bheap c ! b)) S S' \<longrightarrow>
      conns_where (may_use b) (conns S') \<subseteq> conns_where (may_use b) (conns S)
      \<and> conns_where (\<lambda>ph. conn_backend ph = Some b) (conns S') \<subseteq> conns_where (may_use b) (conns S))"
proof -
  have "conns_where (\<lambda>ph. conn_backend ph = Some b) (conns S') \<subseteq> conns_where (may_use b) (conns S')"
    "conns_where (may_use b) (conns S') \<subseteq> conns_where (knows b) (conns S')"
    by (auto simp: conns_where_def may_use_def knows_def conn_backend_candidate)
  then show ?thesis
    using knows_run [of D parse_addr tls owner b S S'] may_use_run [of D parse_addr tls owner b S S']
    unfolding delisted_def [abs_def] found_dead_def [abs_def] by blast
qed

lemma reload_withdraws: "b < length (bheap c) \<Longrightarrow> b \<notin> set (backends (routing_table (snd (admin_service (ReloadConfigRequest path) c))))"
  using install_backends_table(4) [of c "[backend_new 99 (SocketAddr (V4 127 0 0 1) 9099)]"]
  by (auto simp: reload_config_def list_all_iff)

text \<open>A reload while a request is about to compare two backends of the old table, and the choice of the first after it.\<close>

theorem withdrawn_backend_gets_no_request_witness:
  "\<exists>S S' :: (nat, MockXdpLimiter, unit) system.
     run_while open_deps (\<lambda>_. None) False (\<lambda>_ :: nat. addr_a) (\<lambda>c. 0 \<notin> set (backends (routing_table c))) S S'
     \<and> conns_where (\<lambda>ph. conn_backend ph = Some 0) (conns S) = {} \<and> conns_where (\<lambda>ph. conn_backend ph = Some 0) (conns S') = {0}
     \<and> {0} \<subseteq> conns_where (knows 0) (conns S)"
proof -
  let ?c = "snd (admin_service (ReloadConfigRequest ''new.yaml'') (conn_open demo_initial))"
  let ?S = "one_conn (Serving demo_request (Filtering (Some 0) [])) ?c :: (nat, MockXdpLimiter, unit) system"
  let ?S' = "one_conn (Serving demo_request (Selected 0)) ?c :: (nat, MockXdpLimiter, unit) system"
  let ?run = "run_while open_deps (\<lambda>_. None) False (\<lambda>_ :: nat. addr_a) (\<lambda>c. 0 \<notin> set (backends (routing_table c)))"
  have w: "0 \<notin> set (backends (routing_table (ctx ?S)))" "0 \<notin> set (backends (routing_table (ctx ?S')))"
    using reload_withdraws [of 0 "conn_open demo_initial" "''new.yaml''"]
    by (simp_all add: one_conn_def initial_context_def conn_open_def initial_backends_def del: admin_service.simps)
  have "sys_step open_deps (\<lambda>_. None) False (\<lambda>_ :: nat. addr_a) ?S ?S'"
    using sys_step.advancing [of 0 ?S demo_request "Filtering (Some 0) []" demo_env open_deps "Selected 0" ?c]
    by (simp add: one_conn_def move_def set_phase_def del: admin_service.simps)
  then have r: "?run ?S ?S'" by (rule run_while.later [where P = "\<lambda>c. 0 \<notin> set (backends (routing_table c))", OF run_while.here [where P = "\<lambda>c. 0 \<notin> set (backends (routing_table c))", OF w(1)] _ w(2)])
  have "conns_where (\<lambda>ph. conn_backend ph = Some 0) (conns ?S) = {}" "conns_where (\<lambda>ph. conn_backend ph = Some 0) (conns ?S') = {0}"
    by (auto simp: conns_where_def one_conn_def)
  with withdrawn_backend_gets_no_request [of open_deps "\<lambda>_. None" False "\<lambda>_. addr_a" 0 ?S ?S'] r show ?thesis
    by (intro exI [of _ ?S] exI [of _ ?S']) (simp del: admin_service.simps)
qed

text \<open>
  C16. The kernel drops what is on record, as it looks it up. While the proxy runs with the Linux limiter, started
  on an empty map, a well-formed IPv4 packet is dropped exactly when the limiter reports as blocked the address that
  the XDP program looks up for its source, which is the source itself on a big-endian host and the byte-reversed
  source on a little-endian one; and whenever a packet is dropped the ban manager has an expiry on record for
  that address, so that the sweeper will release it, or a task has just blocked that address for its peer and writes
  the expiry next.
\<close>

theorem kernel_drops_what_is_on_record:
  assumes "bpf_map B" "xdp D = linux_xdp B" "async_main E tracing = Ret (c0, tls_config)"
    and "\<And>l. xdp_limiter_init E = Ret (Some l) \<Longrightarrow> bpf_open B l \<and> (\<forall>k. bpf_get B l k = None)"
    and "sys_reachable D parse_addr tls owner (system_start c0) S" "limiter (ban_manager (ctx S)) = Some l"
    and "length macs = 12" "length header = 12" "4 \<le> length payload"
  shows "xdp_prog le B l (ipv4_packet macs header src payload)
      = (if is_ip_blocked (xdp D) l (looked_up le src) then XDP_DROP else XDP_PASS)
    \<and> (xdp_prog le B l (ipv4_packet macs header src payload) = XDP_DROP \<longrightarrow>
        banned_ips (ban_manager (ctx S)) (looked_up le src) \<noteq> None
        \<or> (\<exists>x \<in> set (conns S). addr_ip (peer x) = looked_up le src \<and> (\<exists>req res. conn_phase x = Serving req (Banning res))))"
proof -
  have lim: "xdp_limiter (xdp D) is_v4" unfolding assms(2) by (rule bpf_map.axioms_imp_limiter [OF assms(1)])
  have "\<not> is_ip_blocked (xdp D) l' i" if "xdp_limiter_init E = Ret (Some l')" for l' i
    using assms(4) [OF that] by (simp add: assms(2) linux_defs split: IpAddr.split)
  then have inv: "sys_inv D owner S" using running_inv [OF lim assms(3) _ assms(5)] by blast
  have "limiter_all (ones B) (ban_manager (ctx S))"
    using assms(5)
  proof (induction rule: sys_reachable.induct)
    case start
    obtain l0 store where "xdp_limiter_init E = Ret l0" "c0 = initial_context l0 store" using async_main_context [OF assms(3)] by blast
    then show ?case using assms(4) bpf_map.has_map [OF assms(1)]
      by (auto simp: limiter_all_def system_start_def initial_context_def ban_manager_new_def ones_def)
  next
    case (step T T')
    then show ?case using limiter_all_step [OF step(2), of "ones B"] bpf_map.ones_block [OF assms(1)] bpf_map.ones_unblock [OF assms(1)]
      by (simp add: assms(2))
  qed
  then have "ones B l" using assms(6) by (simp add: limiter_all_def)
  note x = xdp_prog_ones [OF this assms(7-9), of le src, folded assms(2)]
  have "banned_ips (ban_manager (ctx S)) ip \<noteq> None
      \<or> (\<exists>x \<in> set (conns S). addr_ip (peer x) = ip \<and> (\<exists>req res. conn_phase x = Serving req (Banning res)))"
    if "is_ip_blocked (xdp D) l ip" for ip
    using inv that assms(6) by (auto simp: sys_inv_def ctx_inv_def tracked_under kernel_blocks_def)
  with x show ?thesis by auto
qed

text \<open>A proxy with the Linux limiter that throttles every request: one request is answered and its client banned.\<close>

definition strict_deps :: "(unit, unit, (u32 \<times> u32) list) Deps" where
  "strict_deps = \<lparr>http = demo_http, wasmtime = demo_wasmtime,
     check_limit = (\<lambda>e k l p c s. (Inr \<lparr>allowed = False, remaining = 0, reset_after = 0\<rparr>, s)),
     xdp = linux_xdp kernel_map, show_v6 = (\<lambda>w. ''v6'')\<rparr>"

lemma strict_banned:
  "\<exists>S. sys_reachable strict_deps (\<lambda>_. None) False (\<lambda>_ :: nat. addr_a) (system_start (initial_context (Some []) ())) S
     \<and> limiter (ban_manager (ctx S)) = Some [(from_be_bytes 203 0 113 42, 1)]
     \<and> (\<exists>res. map conn_phase (conns S) = [Serving demo_request (Banning res)]) \<and> banned_ips (ban_manager (ctx S)) = Map.empty"
proof -
  let ?c = "conn_open (initial_context (Some []) ()) :: (nat, (u32 \<times> u32) list, unit) ServerContext" and ?res = "\<lparr>allowed = False, remaining = 0, reset_after = 0\<rparr>"
  let ?reach = "sys_reachable strict_deps (\<lambda>_. None) False (\<lambda>_ :: nat. addr_a) (system_start (initial_context (Some []) ()))"
  have "?reach (one_conn (Serving demo_request (Limiting (request_cost demo_http demo_request))) ?c)"
    by (rule one_conn_advance [OF one_conn_serving, where env = demo_env]) (simp_all add: strict_deps_def initial_context_def conn_open_def)
  then have t: "?reach (one_conn (Serving demo_request (Throttled ?res)) ?c)"
    by (rule one_conn_advance [where env = demo_env]) (simp_all add: strict_deps_def initial_context_def conn_open_def)
  have b: "ban_block (xdp strict_deps) (addr_ip demo_client) (ban_manager ?c)
      = (True, \<lparr>limiter = Some [(from_be_bytes 203 0 113 42, 1)], banned_ips = Map.empty\<rparr>)"
    by (simp add: strict_deps_def ban_block_def initial_context_def conn_open_def ban_manager_new_def linux_defs kernel_map_def max_entries_def demo_client_def)
  from t have "?reach (one_conn (Serving demo_request (Banning ?res)) (?c\<lparr>ban_manager := \<lparr>limiter = Some [(from_be_bytes 203 0 113 42, 1)], banned_ips = Map.empty\<rparr>\<rparr>))"
    by (rule one_conn_advance [where env = demo_env]) (simp_all add: b)
  then show ?thesis by (intro exI conjI, assumption) (simp_all add: one_conn_def)
qed

theorem kernel_drops_what_is_on_record_witness:
  "\<exists>S. sys_reachable strict_deps (\<lambda>_. None) False (\<lambda>_ :: nat. addr_a) (system_start (initial_context (Some []) ())) S
     \<and> limiter (ban_manager (ctx S)) = Some [(from_be_bytes 203 0 113 42, 1)]
     \<and> xdp_prog True kernel_map [(from_be_bytes 203 0 113 42, 1)]
         (ipv4_packet (replicate 12 0) (replicate 12 0) (42, 113, 0, 203) (replicate 4 0)) = XDP_DROP
     \<and> banned_ips (ban_manager (ctx S)) (V4 203 0 113 42) = None
     \<and> (\<exists>x \<in> set (conns S). addr_ip (peer x) = V4 203 0 113 42 \<and> (\<exists>req res. conn_phase x = Serving req (Banning res)))"
proof -
  obtain S where S: "sys_reachable strict_deps (\<lambda>_. None) False (\<lambda>_ :: nat. addr_a) (system_start (initial_context (Some []) ())) S"
    "limiter (ban_manager (ctx S)) = Some [(from_be_bytes 203 0 113 42, 1)]" "banned_ips (ban_manager (ctx S)) = Map.empty"
    using strict_banned by blast
  have x: "xdp strict_deps = linux_xdp kernel_map" by (simp add: strict_deps_def)
  have e: "bpf_open kernel_map l \<and> (\<forall>k. bpf_get kernel_map l k = None)" if "xdp_limiter_init (demo_start []) = Ret (Some l)" for l
    using that by (simp add: demo_limiter kernel_map_def)
  have b: "is_ip_blocked (xdp strict_deps) [(from_be_bytes 203 0 113 42, 1)] (V4 203 0 113 42)"
    by (simp add: x linux_defs kernel_map_def)
  show ?thesis
    using kernel_drops_what_is_on_record [OF kernel.bpf_map_axioms x demo_main e S(1,2), of "replicate 12 0" "replicate 12 0" "replicate 4 0" True "(42, 113, 0, 203)"] S b
    by (intro exI [of _ S]) auto
qed

end
